theory Spec2Isabelle
  imports Complex_Main "HOL-Library.Sublist" "HOL-Library.Multiset"
begin

section \<open>Python values used by the sources\<close>

text \<open>
  A Python \<open>str\<close> is a sequence of Unicode code points, so it is modelled as a list of
  natural numbers; \<open>u\<close> turns an ASCII literal into such a string.  Code points beyond
  ASCII are written as numerals (for example 351 for the letter s with cedilla).
  The operator \<open>in\<close> on two strings is \<^const>\<open>sublist\<close> (a contiguous occurrence).
\<close>

type_synonym ustr = "nat list"

definition u :: "string \<Rightarrow> ustr" where
  "u s = map of_char s"

text \<open>
  \<open>str.isspace\<close> of CPython for one code point: the characters that \<open>str.strip()\<close>
  removes and that \<open>\s\<close> matches in a \<open>str\<close> pattern.
\<close>

definition isspace :: "nat \<Rightarrow> bool" where
  "isspace c \<longleftrightarrow>
     (9 \<le> c \<and> c \<le> 13) \<or> (28 \<le> c \<and> c \<le> 32) \<or> c = 133 \<or> c = 160 \<or> c = 5760 \<or>
     (8192 \<le> c \<and> c \<le> 8202) \<or> c = 8232 \<or> c = 8233 \<or> c = 8239 \<or> c = 8287 \<or> c = 12288"

definition lstrip :: "ustr \<Rightarrow> ustr" where
  "lstrip s = dropWhile isspace s"

definition rstrip :: "ustr \<Rightarrow> ustr" where
  "rstrip s = rev (dropWhile isspace (rev s))"

definition strip :: "ustr \<Rightarrow> ustr" where
  "strip s = rstrip (lstrip s)"

text \<open>
  \<open>str.lower\<close> depends on the Unicode case tables, which are not part of the repository:
  the functions that call it take it as the parameter \<open>lower\<close>.  \<open>lower_ascii\<close> is
  what \<open>str.lower\<close> does on a string of ASCII characters; it is the instance used at
  concrete ASCII inputs.
\<close>

definition lower_ascii :: "ustr \<Rightarrow> ustr" where
  "lower_ascii s = map (\<lambda>c. if 65 \<le> c \<and> c \<le> 90 then c + 32 else c) s"

text \<open>
  \<open>s.replace(old, new)\<close>: the occurrences of \<open>old\<close> are found from left to right and do
  not overlap; with an empty \<open>old\<close>, \<open>new\<close> is inserted before every character and at
  the end.
\<close>

function str_replace :: "'a list \<Rightarrow> 'a list \<Rightarrow> 'a list \<Rightarrow> 'a list" where
  "str_replace old new [] = (if old = [] then new else [])"
| "str_replace old new (c # cs) =
     (if old = [] then new @ c # str_replace old new cs
      else if prefix old (c # cs) then new @ str_replace old new (drop (length old) (c # cs))
      else c # str_replace old new cs)"
  by pat_completeness auto
termination
  by (relation "measure (\<lambda>(old, new, s). length s)") auto

text \<open>The exceptions the modelled code can meet; all are subclasses of \<open>Exception\<close>.\<close>

datatype exn =
    SMTPRecipientsRefused | SMTPSenderRefused | SMTPDataError | SMTPAuthenticationError
  | SMTPServerDisconnected | SMTPConnectError | SMTPHeloError | SMTPNotSupportedError
  | SMTPResponseException | SMTPException | HeaderParseError | FileNotFoundError
  | PermissionError | OSError | UnicodeEncodeError | KeyError | ValueError
  | ZeroDivisionError | OverflowError | AttributeError

fun is_Exception :: "exn \<Rightarrow> bool" where
  "is_Exception e = True"

section \<open>email_sender.py\<close>

subsection \<open>The environment of one send\<close>

text \<open>
  A message under construction: the three headers, the text of the body part and the
  attached parts.
\<close>

record attachment =
  att_payload :: "nat list"
  att_disposition :: ustr

record message =
  msg_from :: ustr
  msg_to :: ustr
  msg_subject :: ustr
  msg_body :: ustr
  msg_attachments :: "attachment list"

text \<open>
  What lies outside the program during one call of \<open>send_application_email\<close>: the file
  system (whether a path exists, what reading a file gives), the \<open>email\<close> package
  (\<open>as_string_error\<close> is the exception that \<open>msg.as_string()\<close> raises for a message, if
  any: \<open>HeaderParseError\<close> for an address that holds an embedded header, for example), and
  the mail relay: for each step of the SMTP session the exception it raises, if any.
  \<open>smtp_quit\<close> is the exception of the \<open>QUIT\<close> command that \<open>SMTP.__exit__\<close> sends, where
  a reply other than 221 is \<open>SMTPResponseException\<close>.
\<close>

record world =
  path_exists :: "ustr \<Rightarrow> bool"
  read_file :: "ustr \<Rightarrow> exn + nat list"
  as_string_error :: "message \<Rightarrow> exn option"
  smtp_connect :: "exn option"
  smtp_starttls :: "exn option"
  smtp_login :: "exn option"
  smtp_sendmail :: "exn option"
  smtp_quit :: "exn option"

record EmailSender =
  smtp_server :: ustr
  smtp_port :: int
  email_address :: ustr
  email_password :: ustr

definition placeholder :: ustr where
  "placeholder = u ''[AD SOYAD]''"

text \<open>
  \<open>MIMEText(text, 'plain', 'utf-8')\<close> encodes the text as UTF-8 with the error handler
  \<open>surrogateescape\<close>: a surrogate code point (55296 to 57343) raises
  \<open>UnicodeEncodeError\<close>, unless it is one of the escapes 56448 to 56575.
\<close>

definition utf8_escapable :: "nat \<Rightarrow> bool" where
  "utf8_escapable c \<longleftrightarrow> c < 55296 \<or> 57343 < c \<or> (56448 \<le> c \<and> c \<le> 56575)"

definition MIMEText :: "ustr \<Rightarrow> exn + ustr" where
  "MIMEText text = (if list_all utf8_escapable text then Inr text else Inl UnicodeEncodeError)"

text \<open>\<open>os.path.basename\<close>: what follows the last slash.\<close>

definition basename :: "ustr \<Rightarrow> ustr" where
  "basename p = rev (takeWhile (\<lambda>c. c \<noteq> 47) (rev p))"

definition attach_cv :: "world \<Rightarrow> message \<Rightarrow> ustr \<Rightarrow> exn + message" where
  "attach_cv w msg cv_path =
     (case read_file w cv_path of
        Inl e \<Rightarrow> Inl e
      | Inr payload \<Rightarrow>
          Inr (msg\<lparr>msg_attachments := msg_attachments msg @
                 [\<lparr>att_payload = payload,
                   att_disposition = u ''attachment; filename= '' @ basename cv_path\<rparr>]\<rparr>))"

definition create_email_message ::
  "world \<Rightarrow> EmailSender \<Rightarrow> ustr \<Rightarrow> ustr \<Rightarrow> ustr \<Rightarrow> ustr \<Rightarrow> ustr \<Rightarrow> exn + message" where
  "create_email_message w self to_email company_name email_body cv_path applicant_name =
     (let personalized_body = str_replace placeholder applicant_name email_body
      in case MIMEText personalized_body of
           Inl e \<Rightarrow> Inl e
         | Inr body_part \<Rightarrow>
             (let msg = \<lparr>msg_from = email_address self, msg_to = to_email,
                         msg_subject = u ''Staj Ba'' @ [351] @ u ''vurusu - '' @ applicant_name,
                         msg_body = body_part, msg_attachments = []\<rparr>
              in if cv_path \<noteq> [] \<and> path_exists w cv_path then attach_cv w msg cv_path
                 else Inr msg))"

text \<open>
  The \<open>with smtplib.SMTP(...) as server\<close> block: the constructor connects; the body runs
  \<open>starttls\<close>, \<open>login\<close>, \<open>msg.as_string()\<close> and \<open>sendmail\<close>; \<open>__exit__\<close> runs on every
  way out of the body, and an exception it raises replaces the body's.  \<open>__exit__\<close> sends
  \<open>QUIT\<close> and passes over \<open>SMTPServerDisconnected\<close>.
\<close>

definition with_body :: "world \<Rightarrow> message \<Rightarrow> exn option" where
  "with_body w msg =
     (case smtp_starttls w of Some e \<Rightarrow> Some e
      | None \<Rightarrow> (case smtp_login w of Some e \<Rightarrow> Some e
      | None \<Rightarrow> (case as_string_error w msg of Some e \<Rightarrow> Some e
      | None \<Rightarrow> smtp_sendmail w)))"

definition smtp_exit :: "world \<Rightarrow> exn option" where
  "smtp_exit w =
     (case smtp_quit w of
        None \<Rightarrow> None
      | Some e \<Rightarrow> if e = SMTPServerDisconnected then None else Some e)"

definition smtp_session :: "world \<Rightarrow> message \<Rightarrow> exn + unit" where
  "smtp_session w msg =
     (case smtp_connect w of Some e \<Rightarrow> Inl e
      | None \<Rightarrow>
         (case with_body w msg of
            Some e \<Rightarrow> (case smtp_exit w of Some e2 \<Rightarrow> Inl e2 | None \<Rightarrow> Inl e)
          | None \<Rightarrow> (case smtp_exit w of Some e2 \<Rightarrow> Inl e2 | None \<Rightarrow> Inr ())))"

definition send_attempt ::
  "world \<Rightarrow> EmailSender \<Rightarrow> ustr \<Rightarrow> ustr \<Rightarrow> ustr \<Rightarrow> ustr \<Rightarrow> ustr \<Rightarrow> exn + message" where
  "send_attempt w self to_email company_name email_body cv_path applicant_name =
     (case create_email_message w self to_email company_name email_body cv_path applicant_name of
        Inl e \<Rightarrow> Inl e
      | Inr msg \<Rightarrow> (case smtp_session w msg of Inl e \<Rightarrow> Inl e | Inr _ \<Rightarrow> Inr msg))"

text \<open>
  \<open>send_application_email\<close>: the \<open>try\<close> block is \<open>send_attempt\<close>; the handlers are tried
  in the order of the source, the last one being \<open>except Exception\<close>.  An exception that
  no handler takes would leave the function (\<open>Inl\<close>).
\<close>

definition send_application_email ::
  "world \<Rightarrow> EmailSender \<Rightarrow> ustr \<Rightarrow> ustr \<Rightarrow> ustr \<Rightarrow> ustr \<Rightarrow> ustr \<Rightarrow> exn + bool" where
  "send_application_email w self to_email company_name email_body cv_path applicant_name =
     (case send_attempt w self to_email company_name email_body cv_path applicant_name of
        Inr _ \<Rightarrow> Inr True
      | Inl e \<Rightarrow>
          if e = SMTPRecipientsRefused then Inr False
          else if e = SMTPSenderRefused then Inr False
          else if e = SMTPDataError then Inr False
          else if e = FileNotFoundError then Inr False
          else if is_Exception e then Inr False
          else Inl e)"


definition flattened :: "world \<Rightarrow> exn + message \<Rightarrow> bool" where
  "flattened w r = (case r of Inl _ \<Rightarrow> False | Inr msg \<Rightarrow> as_string_error w msg = None)"

subsection \<open>The batch loop\<close>

text \<open>
  A company is a \<open>dict\<close> from field names to strings.  The loop mutates the \<open>results\<close>
  dictionary and acts on the outside by calling \<open>send_application_email\<close> and by
  sleeping; the state carries the dictionary and the trace of these two kinds of events in
  the order in which they happen.  \<open>Send to_email company_name email_body result\<close> is a
  call with what it returned, \<open>Sleep secs\<close> a sleep that was carried out.
  \<open>ws i\<close> is the world that the send of iteration \<open>i\<close> meets.
\<close>

type_synonym company_info = "ustr \<rightharpoonup> ustr"

record results =
  successful :: "ustr list"
  failed :: "ustr list"
  total_sent :: int
  total_failed :: int

datatype event = Send ustr ustr ustr "exn + bool" | Sleep int

record bstate =
  res :: results
  trace :: "event list"

definition init_state :: bstate where
  "init_state = \<lparr>res = \<lparr>successful = [], failed = [], total_sent = 0, total_failed = 0\<rparr>,
     trace = []\<rparr>"

definition record_success :: "ustr \<Rightarrow> bstate \<Rightarrow> bstate" where
  "record_success company_name st =
     st\<lparr>res := (res st)\<lparr>successful := successful (res st) @ [company_name],
                          total_sent := total_sent (res st) + 1\<rparr>\<rparr>"

definition record_failure :: "ustr \<Rightarrow> bstate \<Rightarrow> bstate" where
  "record_failure company_name st =
     st\<lparr>res := (res st)\<lparr>failed := failed (res st) @ [company_name],
                          total_failed := total_failed (res st) + 1\<rparr>\<rparr>"

text \<open>
  \<open>time.sleep(secs)\<close> for an integer: \<open>ValueError\<close> on a negative length,
  \<open>OverflowError\<close> on a length whose nanoseconds do not fit 64 bits (more than 9223372036
  seconds), and \<open>OSError\<close> on a length that the clock of the system does not accept.
  \<open>limit\<close> is the largest length the system accepts at that moment (on Linux, 9223372036
  less the reading of the monotonic clock).
\<close>

definition sleep_error :: "int \<Rightarrow> int \<Rightarrow> exn option" where
  "sleep_error limit secs =
     (if secs < 0 then Some ValueError
      else if 9223372036 < secs then Some OverflowError
      else if limit < secs then Some OSError
      else None)"

definition time_sleep :: "int \<Rightarrow> int \<Rightarrow> bstate \<Rightarrow> exn option \<times> bstate" where
  "time_sleep limit secs st =
     (case sleep_error limit secs of
        Some e \<Rightarrow> (Some e, st)
      | None \<Rightarrow> (None, st\<lparr>trace := trace st @ [Sleep secs]\<rparr>))"

text \<open>
  The \<open>try\<close> block of one iteration.  The result is the exception that leaves the block,
  if any, and the state at that point: what was appended before the exception stays.
  \<open>limits i\<close> is the limit of \<open>time.sleep\<close> during iteration \<open>i\<close>.
\<close>

definition try_block ::
  "(nat \<Rightarrow> int) \<Rightarrow> (nat \<Rightarrow> world) \<Rightarrow> EmailSender \<Rightarrow> int \<Rightarrow> ustr \<Rightarrow> ustr \<Rightarrow> int \<Rightarrow> nat \<Rightarrow>
   company_info \<Rightarrow> ustr \<Rightarrow> bstate \<Rightarrow> exn option \<times> bstate" where
  "try_block limits ws self total_emails cv_path applicant_name delay_seconds i
     company_info email_body st =
     (case company_info (u ''sirket_adi'') of
        None \<Rightarrow> (Some KeyError, st)
      | Some company_name \<Rightarrow>
     (case company_info (u ''email'') of
        None \<Rightarrow> (Some KeyError, st)
      | Some to_email \<Rightarrow>
         (let result = send_application_email (ws i) self to_email company_name email_body
                         cv_path applicant_name;
              st1 = st\<lparr>trace := trace st @ [Send to_email company_name email_body result]\<rparr>
          in case result of
               Inl e \<Rightarrow> (Some e, st1)
             | Inr success \<Rightarrow>
                 (let st2 = (if success then record_success company_name st1
                             else record_failure company_name st1)
                  in if int i < total_emails - 1 then time_sleep (limits i) delay_seconds st2
                     else (None, st2)))))"

text \<open>The handler \<open>except Exception\<close> of one iteration; its sleep is outside any \<open>try\<close>.\<close>

definition except_block ::
  "(nat \<Rightarrow> int) \<Rightarrow> int \<Rightarrow> int \<Rightarrow> nat \<Rightarrow> company_info \<Rightarrow> bstate \<Rightarrow> exn option \<times> bstate" where
  "except_block limits total_emails delay_seconds i company_info st =
     (let company_name = (case company_info (u ''sirket_adi'') of
                            None \<Rightarrow> u ''Bilinmeyen'' | Some n \<Rightarrow> n);
          st1 = record_failure company_name st
      in if int i < total_emails - 1 then time_sleep (limits i) (delay_seconds div 2) st1
         else (None, st1))"

definition iteration ::
  "(nat \<Rightarrow> int) \<Rightarrow> (nat \<Rightarrow> world) \<Rightarrow> EmailSender \<Rightarrow> int \<Rightarrow> ustr \<Rightarrow> ustr \<Rightarrow> int \<Rightarrow> nat \<Rightarrow>
   company_info \<Rightarrow> ustr \<Rightarrow> bstate \<Rightarrow> exn option \<times> bstate" where
  "iteration limits ws self total_emails cv_path applicant_name delay_seconds i
     company_info email_body st =
     (case try_block limits ws self total_emails cv_path applicant_name delay_seconds i
             company_info email_body st of
        (None, st1) \<Rightarrow> (None, st1)
      | (Some e, st1) \<Rightarrow>
          if is_Exception e
          then except_block limits total_emails delay_seconds i company_info st1
          else (Some e, st1))"

text \<open>
  The \<open>for\<close> loop over \<open>enumerate(zip(companies_data, email_bodies))\<close>, from index \<open>i\<close>;
  an exception that leaves an iteration ends the loop.
\<close>

fun batch_loop ::
  "(nat \<Rightarrow> int) \<Rightarrow> (nat \<Rightarrow> world) \<Rightarrow> EmailSender \<Rightarrow> int \<Rightarrow> ustr \<Rightarrow> ustr \<Rightarrow> int \<Rightarrow> nat \<Rightarrow>
   (company_info \<times> ustr) list \<Rightarrow> bstate \<Rightarrow> exn option \<times> bstate" where
  "batch_loop limits ws self total_emails cv_path applicant_name delay_seconds i [] st =
     (None, st)"
| "batch_loop limits ws self total_emails cv_path applicant_name delay_seconds i (p # ps) st =
     (case iteration limits ws self total_emails cv_path applicant_name delay_seconds i
             (fst p) (snd p) st of
        (None, st1) \<Rightarrow>
          batch_loop limits ws self total_emails cv_path applicant_name delay_seconds
            (Suc i) ps st1
      | (Some e, st1) \<Rightarrow> (Some e, st1))"

text \<open>
  The operator \<open>/\<close> on two integers gives the float nearest to the quotient.  It raises
  \<open>ZeroDivisionError\<close> on a zero divisor and \<open>OverflowError\<close> when the quotient rounds to
  \<open>2 ^ 1024\<close> or more.  The float is represented by the exact quotient, and so is its
  product with 100.
\<close>

definition float_limit :: int where
  "float_limit = 2 ^ 1024 - 2 ^ 970"

definition truediv :: "int \<Rightarrow> int \<Rightarrow> exn + rat" where
  "truediv a b =
     (if b = 0 then Inl ZeroDivisionError
      else if float_limit * \<bar>b\<bar> \<le> \<bar>a\<bar> then Inl OverflowError
      else Inr (of_int a / of_int b))"

text \<open>
  What a call of \<open>send_batch_emails\<close> leaves: the dictionary it returns or the exception
  that leaves it, the trace of its sends and sleeps, and the success rate that the summary
  logs (before it is rounded to one decimal).
\<close>

record outcome =
  returned :: "exn + results"
  events :: "event list"
  logged_rate :: "rat option"

definition send_batch_emails ::
  "(nat \<Rightarrow> int) \<Rightarrow> (nat \<Rightarrow> world) \<Rightarrow> EmailSender \<Rightarrow> company_info list \<Rightarrow> ustr list \<Rightarrow>
   ustr \<Rightarrow> ustr \<Rightarrow> int \<Rightarrow> outcome" where
  "send_batch_emails limits ws self companies_data email_bodies cv_path applicant_name
     delay_seconds =
     (let total_emails = int (length companies_data);
          fin = batch_loop limits ws self total_emails cv_path applicant_name delay_seconds 0
                  (zip companies_data email_bodies) init_state;
          st = snd fin
      in case fst fin of
           Some e \<Rightarrow> \<lparr>returned = Inl e, events = trace st, logged_rate = None\<rparr>
         | None \<Rightarrow>
             (case truediv (total_sent (res st)) total_emails of
                Inl e \<Rightarrow> \<lparr>returned = Inl e, events = trace st, logged_rate = None\<rparr>
              | Inr q \<Rightarrow>
                  \<lparr>returned = Inr (res st), events = trace st, logged_rate = Some (q * 100)\<rparr>))"

text \<open>
  Notions for the statements.  \<open>sleep_max limit\<close> is the largest length that
  \<open>time.sleep\<close> accepts, and \<open>sleep_ok limit secs\<close> says that it accepts \<open>secs\<close>.
  \<open>recorded_name\<close>: the name under which a company is recorded; \<open>has_keys\<close>: its
  dictionary has the two keys the loop reads.  \<open>send_result\<close> is what the send of the pair
  \<open>p\<close> at index \<open>i\<close> returns, and \<open>accepted\<close> says that the pair has both keys and its
  send returned \<open>True\<close>.
\<close>

definition sleep_max :: "int \<Rightarrow> int" where
  "sleep_max limit = min limit 9223372036"

definition sleep_ok :: "int \<Rightarrow> int \<Rightarrow> bool" where
  "sleep_ok limit secs \<longleftrightarrow> 0 \<le> secs \<and> secs \<le> 9223372036 \<and> secs \<le> limit"

definition recorded_name :: "company_info \<Rightarrow> ustr" where
  "recorded_name c = (case c (u ''sirket_adi'') of None \<Rightarrow> u ''Bilinmeyen'' | Some n \<Rightarrow> n)"

definition has_keys :: "company_info \<Rightarrow> bool" where
  "has_keys c \<longleftrightarrow> c (u ''sirket_adi'') \<noteq> None \<and> c (u ''email'') \<noteq> None"

definition send_result ::
  "(nat \<Rightarrow> world) \<Rightarrow> EmailSender \<Rightarrow> ustr \<Rightarrow> ustr \<Rightarrow> nat \<Rightarrow> company_info \<times> ustr \<Rightarrow> exn + bool" where
  "send_result ws self cv_path applicant_name i p =
     send_application_email (ws i) self (the (fst p (u ''email''))) (the (fst p (u ''sirket_adi'')))
       (snd p) cv_path applicant_name"

definition accepted ::
  "(nat \<Rightarrow> world) \<Rightarrow> EmailSender \<Rightarrow> ustr \<Rightarrow> ustr \<Rightarrow> nat \<Rightarrow> company_info \<times> ustr \<Rightarrow> bool" where
  "accepted ws self cv_path applicant_name i p \<longleftrightarrow>
     has_keys (fst p) \<and> send_result ws self cv_path applicant_name i p = Inr True"

text \<open>
  \<open>names_where P i ps\<close>: the recorded names of the pairs of \<open>ps\<close>, numbered from \<open>i\<close>,
  that satisfy \<open>P\<close>.  \<open>calls\<close>: one send for each pair that has both keys.
  \<open>run_events\<close>: the events of the iterations over \<open>ps\<close> when no sleep is refused.
\<close>

fun names_where ::
  "(nat \<Rightarrow> company_info \<times> ustr \<Rightarrow> bool) \<Rightarrow> nat \<Rightarrow> (company_info \<times> ustr) list \<Rightarrow> ustr list" where
  "names_where P i [] = []"
| "names_where P i (p # ps) =
     (if P i p then [recorded_name (fst p)] else []) @ names_where P (Suc i) ps"

definition call ::
  "(nat \<Rightarrow> world) \<Rightarrow> EmailSender \<Rightarrow> ustr \<Rightarrow> ustr \<Rightarrow> nat \<Rightarrow> company_info \<times> ustr \<Rightarrow> event list" where
  "call ws self cv_path applicant_name i p =
     (if has_keys (fst p)
      then [Send (the (fst p (u ''email''))) (the (fst p (u ''sirket_adi''))) (snd p)
              (send_result ws self cv_path applicant_name i p)]
      else [])"

fun calls ::
  "(nat \<Rightarrow> world) \<Rightarrow> EmailSender \<Rightarrow> ustr \<Rightarrow> ustr \<Rightarrow> nat \<Rightarrow> (company_info \<times> ustr) list \<Rightarrow>
   event list" where
  "calls ws self cv_path applicant_name i [] = []"
| "calls ws self cv_path applicant_name i (p # ps) =
     call ws self cv_path applicant_name i p @ calls ws self cv_path applicant_name (Suc i) ps"

fun run_events ::
  "(nat \<Rightarrow> world) \<Rightarrow> EmailSender \<Rightarrow> ustr \<Rightarrow> ustr \<Rightarrow> int \<Rightarrow> int \<Rightarrow> nat \<Rightarrow>
   (company_info \<times> ustr) list \<Rightarrow> event list" where
  "run_events ws self cv_path applicant_name total_emails delay_seconds i [] = []"
| "run_events ws self cv_path applicant_name total_emails delay_seconds i (p # ps) =
     call ws self cv_path applicant_name i p @
     (if int i < total_emails - 1
      then [Sleep (if has_keys (fst p) then delay_seconds else delay_seconds div 2)] else []) @
     run_events ws self cv_path applicant_name total_emails delay_seconds (Suc i) ps"

fun is_Send :: "event \<Rightarrow> bool" where
  "is_Send (Send t c b r) = True"
| "is_Send (Sleep s) = False"

text \<open>
  \<open>after_send\<close> is the state after the send of a pair that has both keys and the
  recording of its outcome.  \<open>paced\<close> is the pacing in the words of the claim: each pair
  in turn, a pair with both keys is sent, and a sleep follows every pair except the last.
\<close>

definition after_send ::
  "(nat \<Rightarrow> world) \<Rightarrow> EmailSender \<Rightarrow> ustr \<Rightarrow> ustr \<Rightarrow> nat \<Rightarrow> company_info \<times> ustr \<Rightarrow> bstate \<Rightarrow> bstate" where
  "after_send ws self cv app i p st =
     (let st1 = st\<lparr>trace := trace st @ call ws self cv app i p\<rparr>
      in if accepted ws self cv app i p then record_success (recorded_name (fst p)) st1
         else record_failure (recorded_name (fst p)) st1)"

fun paced ::
  "(nat \<Rightarrow> world) \<Rightarrow> EmailSender \<Rightarrow> ustr \<Rightarrow> ustr \<Rightarrow> int \<Rightarrow> nat \<Rightarrow>
   (company_info \<times> ustr) list \<Rightarrow> event list" where
  "paced ws self cv_path applicant_name delay_seconds i [] = []"
| "paced ws self cv_path applicant_name delay_seconds i (p # ps) =
     call ws self cv_path applicant_name i p @
     (if ps = [] then []
      else [Sleep (if has_keys (fst p) then delay_seconds else delay_seconds div 2)]) @
     paced ws self cv_path applicant_name delay_seconds (Suc i) ps"

text \<open>
  Whether an iteration lets an exception out depends on the delay, the limit and the
  position only, not on the worlds nor on the state.
\<close>

definition iteration_error :: "(nat \<Rightarrow> int) \<Rightarrow> int \<Rightarrow> int \<Rightarrow> nat \<Rightarrow> exn option" where
  "iteration_error limits tot delay i =
     (if int i < tot - 1 then sleep_error (limits i) (delay div 2) else None)"


section \<open>llm_manager.py: cleaning the generated text\<close>

text \<open>
  \<open>split_nl\<close> is \<open>s.split('\n')\<close> and \<open>join_nl\<close> is \<open>'\n'.join(lines)\<close>.
  \<open>re_sub_blank\<close> is \<open>re.sub(r'\n\s*\n', '\n\n', s)\<close>: at a newline, the greedy
  \<open>\s*\<close> takes the whole run of whitespace that follows and gives back characters until
  a newline ends the match, so the match reaches the last newline of that run; it is
  replaced by two newlines and the scan goes on behind it.
\<close>

fun split_nl :: "ustr \<Rightarrow> ustr list" where
  "split_nl [] = [[]]"
| "split_nl (c # cs) =
     (if c = 10 then [] # split_nl cs
      else (case split_nl cs of [] \<Rightarrow> [[c]] | l # ls \<Rightarrow> (c # l) # ls))"

fun join_nl :: "ustr list \<Rightarrow> ustr" where
  "join_nl [] = []"
| "join_nl [l] = l"
| "join_nl (l # ls) = l @ 10 # join_nl ls"

function re_sub_blank :: "ustr \<Rightarrow> ustr" where
  "re_sub_blank [] = []"
| "re_sub_blank (c # cs) =
     (if c = 10 \<and> 10 \<in> set (takeWhile isspace cs)
      then [10, 10] @
           re_sub_blank (rev (takeWhile (\<lambda>x. x \<noteq> 10) (rev (takeWhile isspace cs))) @
                         dropWhile isspace cs)
      else c # re_sub_blank cs)"
  by pat_completeness auto
termination
proof (relation "measure length")
  show "wf (measure length)" by simp
next
  fix c :: nat and cs :: ustr
  assume "c = 10 \<and> 10 \<in> set (takeWhile isspace cs)"
  have "length (takeWhile (\<lambda>x. x \<noteq> 10) (rev (takeWhile isspace cs))) \<le> length (takeWhile isspace cs)"
    by (metis length_takeWhile_le length_rev)
  moreover have "length (takeWhile isspace cs) + length (dropWhile isspace cs) = length cs"
    by (metis length_append takeWhile_dropWhile_id)
  ultimately show "(rev (takeWhile (\<lambda>x. x \<noteq> 10) (rev (takeWhile isspace cs))) @ dropWhile isspace cs, c # cs)
        \<in> measure length" by simp
next
  fix c :: nat and cs :: ustr
  show "(cs, c # cs) \<in> measure length" by simp
qed

text \<open>
  \<open>_clean_response\<close>, with \<open>str.lower\<close> as the parameter \<open>lower\<close>; the code point 246
  is the letter o with diaeresis.
\<close>

definition lines_to_remove :: "ustr list" where
  "lines_to_remove =
     [u ''konu:'', u ''subject:'', u ''kimden:'', u ''from:'', u ''kime:'', u ''to:'',
      u ''e-posta g'' @ [246] @ u ''vdesi:'', u ''email body:'']"

definition should_skip :: "(ustr \<Rightarrow> ustr) \<Rightarrow> ustr \<Rightarrow> bool" where
  "should_skip lower line =
     (let line_lower = strip (lower line)
      in list_ex (\<lambda>remove_text. sublist remove_text line_lower) lines_to_remove)"

definition filtered_lines :: "(ustr \<Rightarrow> ustr) \<Rightarrow> ustr list \<Rightarrow> ustr list" where
  "filtered_lines lower lines =
     filter (\<lambda>line. \<not> should_skip lower line \<and> strip line \<noteq> []) lines"

definition clean_response :: "(ustr \<Rightarrow> ustr) \<Rightarrow> ustr \<Rightarrow> ustr" where
  "clean_response lower response =
     (let cleaned = strip response;
          lines = split_nl cleaned;
          cleaned = join_nl (filtered_lines lower lines);
          cleaned = re_sub_blank cleaned
      in strip cleaned)"

section \<open>staj_basvuru_automator.py: the status column\<close>

text \<open>
  The CSV file is kept as the rows its parser yields, the header row first and each row a
  list of fields; \<open>None\<close> stands for a file that does not exist.  A row of
  \<open>csv.DictReader\<close> is a dictionary in the order of its keys: \<open>cells\<close> holds the
  entries under the column names (\<open>None\<close> as a value is the filler of a short row) and
  \<open>extras\<close> the fields beyond the header, which the reader stores under the key \<open>None\<close>.
\<close>

record rowdict =
  cells :: "(ustr \<times> ustr option) list"
  extras :: "ustr list option"

fun dict_set :: "'k \<Rightarrow> 'v \<Rightarrow> ('k \<times> 'v) list \<Rightarrow> ('k \<times> 'v) list" where
  "dict_set k v [] = [(k, v)]"
| "dict_set k v (p # d) = (if fst p = k then (k, v) # d else p # dict_set k v d)"

definition dict_row :: "ustr list \<Rightarrow> ustr list \<Rightarrow> rowdict" where
  "dict_row fieldnames row =
     (let d = foldl (\<lambda>d p. dict_set (fst p) (Some (snd p)) d) [] (zip fieldnames row);
          lf = length fieldnames; lr = length row
      in if lf < lr then \<lparr>cells = d, extras = Some (drop lf row)\<rparr>
         else if lf > lr
         then \<lparr>cells = foldl (\<lambda>d key. dict_set key None d) d (drop lr fieldnames), extras = None\<rparr>
         else \<lparr>cells = d, extras = None\<rparr>)"

definition dict_reader :: "ustr list list \<Rightarrow> rowdict list" where
  "dict_reader rows =
     (case rows of [] \<Rightarrow> []
      | fieldnames # data \<Rightarrow> map (dict_row fieldnames) (filter (\<lambda>row. row \<noteq> []) data))"

text \<open>
  The column names; 350 and 305 are the capital s with cedilla and the dotless i of the
  first one.  \<open>fieldnames\<close> is the list that \<open>csv_durumunu_guncelle\<close> hands to the writer.
\<close>

definition col_sirket_adi :: ustr where "col_sirket_adi = [350] @ u ''irket Ad'' @ [305]"
definition col_durum :: ustr where "col_durum = u ''Durum''"

definition fieldnames :: "ustr list" where
  "fieldnames = [col_sirket_adi, u ''Adres'', u ''Numara'', u ''Web Sitesi'', u ''Mail'',
     col_durum, u ''Notlar'']"







section \<open>staj_basvuru_automator.py: reading the companies\<close>

record SirketBilgisi =
  sirket_adi :: ustr
  adres :: ustr
  numara :: ustr
  web_sitesi :: ustr
  mail :: ustr
  durum :: ustr
  notlar :: ustr

text \<open>
  \<open>row.get(key, '').strip()\<close>: a missing key gives the empty string; the filler \<open>None\<close>
  of a short row has no \<open>strip\<close> and raises \<open>AttributeError\<close>.
\<close>

definition get_strip :: "rowdict \<Rightarrow> ustr \<Rightarrow> exn + ustr" where
  "get_strip row key =
     (case map_of (cells row) key of
        None \<Rightarrow> Inr (strip [])
      | Some None \<Rightarrow> Inl AttributeError
      | Some (Some v) \<Rightarrow> Inr (strip v))"

definition bind :: "exn + 'a \<Rightarrow> ('a \<Rightarrow> exn + 'b) \<Rightarrow> exn + 'b" where
  "bind r f = (case r of Inl e \<Rightarrow> Inl e | Inr v \<Rightarrow> f v)"

text \<open>
  The marker of a company that was written to before, \<open>g\<close>, o with diaeresis,
  \<open>nderildi\<close>, and the two values of the column \<open>Mail\<close> that stand for a request form.
\<close>

definition gonderildi :: ustr where
  "gonderildi = u ''g'' @ [246] @ u ''nderildi''"

definition talep_form :: "ustr list" where
  "talep_form = [u ''TalepForm'', u ''Talep Form'']"

text \<open>
  The body of the loop of \<open>csv_dosyasini_oku\<close> for one row: the company to append, or
  \<open>None\<close> when the row is passed over; \<open>str.lower\<close> is the parameter \<open>lower\<close>.
\<close>

definition sirket_of_row :: "(ustr \<Rightarrow> ustr) \<Rightarrow> rowdict \<Rightarrow> exn + SirketBilgisi option" where
  "sirket_of_row lower row =
     bind (get_strip row col_sirket_adi) (\<lambda>name_test.
       if name_test = [] then Inr None
       else
         bind (get_strip row col_sirket_adi) (\<lambda>v_sirket_adi.
         bind (get_strip row (u ''Adres'')) (\<lambda>v_adres.
         bind (get_strip row (u ''Numara'')) (\<lambda>v_numara.
         bind (get_strip row (u ''Web Sitesi'')) (\<lambda>v_web_sitesi.
         bind (get_strip row (u ''Mail'')) (\<lambda>v_mail.
         bind (get_strip row col_durum) (\<lambda>v_durum.
         bind (get_strip row (u ''Notlar'')) (\<lambda>v_notlar.
           let sirket = \<lparr>sirket_adi = v_sirket_adi, adres = v_adres, numara = v_numara,
                          web_sitesi = v_web_sitesi, mail = v_mail, durum = v_durum,
                          notlar = v_notlar\<rparr>
           in if mail sirket = [] \<or> mail sirket \<in> set talep_form then Inr None
              else if durum sirket \<noteq> [] \<and> sublist gonderildi (lower (durum sirket))
              then Inr None
              else Inr (Some sirket)))))))))"

fun sirketler_of_rows :: "(ustr \<Rightarrow> ustr) \<Rightarrow> rowdict list \<Rightarrow> exn + SirketBilgisi list" where
  "sirketler_of_rows lower [] = Inr []"
| "sirketler_of_rows lower (row # rows) =
     (case sirket_of_row lower row of
        Inl e \<Rightarrow> Inl e
      | Inr found \<Rightarrow>
          (case sirketler_of_rows lower rows of
             Inl e \<Rightarrow> Inl e
           | Inr sirketler \<Rightarrow>
               Inr ((case found of None \<Rightarrow> [] | Some sirket \<Rightarrow> [sirket]) @ sirketler)))"

text \<open>
  \<open>csv_dosyasini_oku\<close>: the list of companies, or \<open>None\<close> when the process ends with
  \<open>sys.exit(1)\<close>, which both handlers do: for a file that does not exist and for any
  exception of the loop.
\<close>

definition csv_dosyasini_oku ::
  "(ustr \<Rightarrow> ustr) \<Rightarrow> ustr list list option \<Rightarrow> SirketBilgisi list option" where
  "csv_dosyasini_oku lower file =
     (case file of
        None \<Rightarrow> None
      | Some rows \<Rightarrow>
          (case sirketler_of_rows lower (dict_reader rows) of
             Inl e \<Rightarrow> None
           | Inr sirketler \<Rightarrow> Some sirketler))"

section \<open>data_processor.py: cleaning the table\<close>

text \<open>
  A \<open>DataFrame\<close> as \<open>read_csv\<close> gives it: the column names and the rows, each a list of
  cells in the order of the columns.  A cell is missing (\<open>NaN\<close>) or is a value, kept as
  the text that \<open>str\<close> gives for it.
\<close>

datatype cell = NA | Val ustr

record frame =
  df_columns :: "ustr list"
  df_rows :: "cell list list"

fun col_index :: "ustr list \<Rightarrow> ustr \<Rightarrow> nat option" where
  "col_index [] c = None"
| "col_index (x # xs) c = (if x = c then Some 0 else map_option Suc (col_index xs c))"

definition cell_at :: "ustr list \<Rightarrow> cell list \<Rightarrow> ustr \<Rightarrow> cell" where
  "cell_at cols row c =
     (case col_index cols c of
        None \<Rightarrow> NA
      | Some i \<Rightarrow> if i < length row then row ! i else NA)"

definition set_cell :: "ustr list \<Rightarrow> cell list \<Rightarrow> ustr \<Rightarrow> cell \<Rightarrow> cell list" where
  "set_cell cols row c v =
     (case col_index cols c of
        None \<Rightarrow> row
      | Some i \<Rightarrow> if i < length row then row[i := v] else row)"

definition col_mail :: ustr where "col_mail = u ''Mail''"

text \<open>
  \<open>astype(str).str.strip()\<close> followed by \<open>replace('nan', pd.NA)\<close>, for one cell: a
  missing value becomes the text \<open>nan\<close>, and the text \<open>nan\<close> becomes a missing value.
\<close>

definition clean_cell :: "cell \<Rightarrow> cell" where
  "clean_cell c =
     (let s = strip (case c of NA \<Rightarrow> u ''nan'' | Val v \<Rightarrow> v)
      in if s = u ''nan'' then NA else Val s)"

definition clean_row :: "ustr list \<Rightarrow> cell list \<Rightarrow> cell list" where
  "clean_row cols row =
     foldl (\<lambda>r col. if col \<in> set cols then set_cell cols r col (clean_cell (cell_at cols r col))
                     else r)
       row [col_sirket_adi, col_mail, u ''Web Sitesi'', u ''Notlar'']"

text \<open>
  The pattern \<open>^[a-zA-Z0-9._%+-]+@[a-zA-Z0-9.-]+\.[a-zA-Z]{2,}$\<close> under \<open>re.match\<close>.
  The first class does not hold the at sign, so the local part is the longest run of the
  first class; the last class does not hold the dot, so the last part is what follows the
  last dot; and \<open>$\<close> also matches before a newline that ends the string.
\<close>

definition is_alpha :: "nat \<Rightarrow> bool" where
  "is_alpha c \<longleftrightarrow> (97 \<le> c \<and> c \<le> 122) \<or> (65 \<le> c \<and> c \<le> 90)"

definition is_alnum :: "nat \<Rightarrow> bool" where
  "is_alnum c \<longleftrightarrow> is_alpha c \<or> (48 \<le> c \<and> c \<le> 57)"

definition local_char :: "nat \<Rightarrow> bool" where
  "local_char c \<longleftrightarrow> is_alnum c \<or> c = 46 \<or> c = 95 \<or> c = 37 \<or> c = 43 \<or> c = 45"

definition domain_char :: "nat \<Rightarrow> bool" where
  "domain_char c \<longleftrightarrow> is_alnum c \<or> c = 46 \<or> c = 45"

definition domain_match :: "ustr \<Rightarrow> bool" where
  "domain_match r =
     (let last_part = rev (takeWhile (\<lambda>c. c \<noteq> 46) (rev r));
          front = take (length r - length last_part - 1) r
      in 46 \<in> set r \<and> 2 \<le> length last_part \<and> list_all is_alpha last_part \<and>
         front \<noteq> [] \<and> list_all domain_char front)"

definition email_match :: "ustr \<Rightarrow> bool" where
  "email_match s =
     (let local_part = takeWhile local_char s;
          rest = dropWhile local_char s
      in local_part \<noteq> [] \<and> rest \<noteq> [] \<and> hd rest = 64 \<and>
         (domain_match (tl rest) \<or>
          (tl rest \<noteq> [] \<and> last (tl rest) = 10 \<and> domain_match (butlast (tl rest)))))"

definition is_valid_email :: "cell \<Rightarrow> bool" where
  "is_valid_email email = (case email of NA \<Rightarrow> False | Val s \<Rightarrow> s \<noteq> [] \<and> email_match s)"

text \<open>\<open>drop_duplicates\<close> keeps the first row of each key; \<open>seen\<close> holds the keys met.\<close>

fun drop_duplicates :: "('a \<Rightarrow> 'k) \<Rightarrow> 'k list \<Rightarrow> 'a list \<Rightarrow> 'a list" where
  "drop_duplicates key seen [] = []"
| "drop_duplicates key seen (r # rs) =
     (if key r \<in> set seen then drop_duplicates key seen rs
      else r # drop_duplicates key (key r # seen) rs)"

text \<open>
  \<open>_clean_data\<close>; \<open>dropna(subset=...)\<close> raises \<open>KeyError\<close> for a column that the table
  does not have.
\<close>

definition clean_data :: "frame \<Rightarrow> exn + frame" where
  "clean_data df =
     (let cols = df_columns df;
          rows1 = filter (\<lambda>row. \<not> list_all (\<lambda>c. c = NA) row) (df_rows df)
      in if col_sirket_adi \<notin> set cols \<or> col_mail \<notin> set cols then Inl KeyError
         else
           (let rows2 = filter (\<lambda>row. cell_at cols row col_sirket_adi \<noteq> NA \<and>
                                         cell_at cols row col_mail \<noteq> NA) rows1;
                rows3 = map (clean_row cols) rows2;
                rows4 = filter (\<lambda>row. is_valid_email (cell_at cols row col_mail)) rows3;
                rows5 = drop_duplicates (\<lambda>row. cell_at cols row col_mail) [] rows4
            in Inr (df\<lparr>df_rows := rows5\<rparr>)))"

section \<open>main.py: the summary file\<close>











subsection \<open>Sample values\<close>

text \<open>
  A relay that accepts everything beside a file system with no file and a message that
  flattens; a sender; a relay that refuses the recipient; and a relay that answers the
  closing \<open>QUIT\<close> with an error.
\<close>

definition world_ok :: world where
  "world_ok = \<lparr>path_exists = (\<lambda>p. False), read_file = (\<lambda>p. Inl FileNotFoundError),
     as_string_error = (\<lambda>m. None),
     smtp_connect = None, smtp_starttls = None, smtp_login = None, smtp_sendmail = None,
     smtp_quit = None\<rparr>"

definition sender0 :: EmailSender where
  "sender0 = \<lparr>smtp_server = u ''smtp.gmail.com'', smtp_port = 587,
     email_address = u ''me@x.co'', email_password = u ''pw''\<rparr>"

definition world_refused :: world where
  "world_refused = world_ok\<lparr>smtp_sendmail := Some SMTPRecipientsRefused\<rparr>"

definition world_quit_refused :: world where
  "world_quit_refused = world_ok\<lparr>smtp_quit := Some SMTPResponseException\<rparr>"

text \<open>
  \<open>worlds ws\<close> lets iteration \<open>i\<close> meet the \<open>i\<close>-th world of the list, and \<open>world_ok\<close>
  beyond it; \<open>company name address\<close> is the dictionary with the two keys the loop reads;
  \<open>uptime\<close> gives the limits of \<open>time.sleep\<close> on a system whose monotonic clock reads
  one day; \<open>quiet\<close> is an environment in which the summary file opens and closes and the
  message prints.
\<close>

definition worlds :: "world list \<Rightarrow> nat \<Rightarrow> world" where
  "worlds ws i = (if i < length ws then ws ! i else world_ok)"

definition company :: "string \<Rightarrow> string \<Rightarrow> company_info" where
  "company name address = [u ''sirket_adi'' \<mapsto> u name, u ''email'' \<mapsto> u address]"

definition uptime :: "nat \<Rightarrow> int" where
  "uptime i = 9223372036 - 86400"


section \<open>Properties\<close>

subsection \<open>Message composition and the single send\<close>

lemma create_email_message_body:
  "create_email_message w self t c b p n = Inr m \<Longrightarrow> msg_body m = str_replace placeholder n b"
  by (auto simp: create_email_message_def attach_cv_def MIMEText_def Let_def
      split: if_splits sum.splits)

lemma str_replace_hit:
  "old \<noteq> [] \<Longrightarrow> prefix old s \<Longrightarrow>
   str_replace old new s = new @ str_replace old new (drop (length old) s)"
  by (cases s) auto

lemma sublist_skip_new:
  "a \<notin> set new \<Longrightarrow> sublist (a # t) (new @ rest) \<Longrightarrow> sublist (a # t) rest"
  by (induction new) (auto simp: sublist_Cons_right)

text \<open>
  A tail of the old text that shows up at the front of the result was already at the front
  of the input, when the new text can neither end it nor lie inside it.
\<close>

lemma prefix_replace_back:
  assumes z: "z \<notin> set new" and nm: "\<not> sublist new mid" and old: "old = a # mid @ [z]"
  shows "suffix t (mid @ [z]) \<Longrightarrow> t \<noteq> [] \<Longrightarrow>
         prefix t (str_replace old new s) \<Longrightarrow> prefix t s"
proof (induction s arbitrary: t rule: length_induct)
  case (1 s)
  have ne: "old \<noteq> []" using old by simp
  show ?case
  proof (cases s)
    case Nil
    with 1 ne show ?thesis by simp
  next
    case (Cons c cs)
    show ?thesis
    proof (cases "prefix old s")
      case True
      define rest where "rest = str_replace old new (drop (length old) s)"
      from True 1(4) have p: "prefix t (new @ rest)"
        by (simp add: rest_def str_replace_hit [OF ne])
      from 1(2,3) obtain t' where t: "t = t' @ [z]" and t': "suffix t' mid"
        by (metis suffix_snoc append_butlast_last_id)
      from p have "prefix t new \<or> (\<exists>r. t = new @ r \<and> prefix r rest)"
        by (auto simp: prefix_append)
      then show ?thesis
      proof
        assume "prefix t new"
        then have "set t \<subseteq> set new" by (rule set_mono_prefix)
        with t z show ?thesis by auto
      next
        assume "\<exists>r. t = new @ r \<and> prefix r rest"
        then obtain r where r: "t = new @ r" by blast
        have "r \<noteq> []" using r t z by (cases r) auto
        then obtain r' where r': "r = r' @ [z]" using r t
          by (metis append_butlast_last_id last_appendR last_snoc)
        with r t have "t' = new @ r'" by simp
        with t' have "sublist new mid"
          by (metis sublist_appendI suffix_def sublist_def)
        with nm show ?thesis by simp
      qed
    next
      case False
      with Cons 1(4) ne have p: "prefix t (c # str_replace old new cs)"
        by simp
      from 1(3) obtain t2 where t: "t = c # t2" and p2: "prefix t2 (str_replace old new cs)"
        using p by (cases t) auto
      show ?thesis
      proof (cases "t2 = []")
        case True
        with t Cons show ?thesis by simp
      next
        case F2: False
        have "suffix t2 (mid @ [z])" using 1(2) unfolding t by (rule suffix_ConsD)
        with 1(1) Cons F2 p2 have "prefix t2 cs" by simp
        with t Cons show ?thesis by simp
      qed
    qed
  qed
qed

lemma replace_no_old:
  assumes a: "a \<notin> set new" and z: "z \<notin> set new" and nm: "\<not> sublist new mid"
    and old: "old = a # mid @ [z]"
  shows "\<not> sublist old (str_replace old new s)"
proof (induction s rule: length_induct)
  case (1 s)
  have ne: "old \<noteq> []" using old by simp
  show ?case
  proof (cases s)
    case Nil
    then show ?thesis using ne by simp
  next
    case (Cons c cs)
    show ?thesis
    proof (cases "prefix old s")
      case True
      have "length (drop (length old) s) < length s" using ne Cons by simp
      then have "\<not> sublist old (str_replace old new (drop (length old) s))"
        using 1 by blast
      then have "\<not> sublist old (new @ str_replace old new (drop (length old) s))"
        using sublist_skip_new [OF a] old by blast
      with True show ?thesis by (simp add: str_replace_hit [OF ne])
    next
      case False
      have ih: "\<not> sublist old (str_replace old new cs)" using 1 Cons by simp
      have "\<not> prefix old (c # str_replace old new cs)"
      proof
        assume p: "prefix old (c # str_replace old new cs)"
        then have c: "c = a" and "prefix (mid @ [z]) (str_replace old new cs)"
          using old by auto
        then have "prefix (mid @ [z]) cs"
          using prefix_replace_back [OF z nm old, of "mid @ [z]" cs] by simp
        with c False Cons old show False by simp
      qed
      moreover have "str_replace old new s = c # str_replace old new cs"
        using False Cons ne by simp
      ultimately show ?thesis using ih ne
        by (cases old) (simp_all add: sublist_Cons_right)
    qed
  qed
qed

lemma placeholder_shape: "placeholder = 91 # u ''AD SOYAD'' @ [93]"
  by (simp add: placeholder_def u_def)

text \<open>
  C7, as stated, fails: the applicant name \<open>AD SOYAD]\<close> does not contain the placeholder,
  and the body \<open>[[AD SOYAD]\<close> is composed into a message whose body is the placeholder
  itself (the bracket left over joins the inserted name).
\<close>

theorem placeholder_reappears_counterexample:
  "\<not> sublist placeholder (u ''AD SOYAD]'') \<and>
   map_sum id msg_body
     (create_email_message world_ok sender0 (u ''hr@firm.co'') (u ''Firm'')
        (u ''[[AD SOYAD]'') [] (u ''AD SOYAD]'')) = Inr placeholder"
  by (simp add: create_email_message_def MIMEText_def utf8_escapable_def placeholder_def u_def
      sublist_code)

text \<open>
  C7, amended: the body of the composed message is the given body with the occurrences of
  \<open>[AD SOYAD]\<close> replaced from left to right by the applicant's name, and it holds no
  placeholder when the name contains neither square bracket and is not a (possibly empty)
  piece of \<open>AD SOYAD\<close>.
\<close>

theorem create_email_message_no_placeholder:
  assumes "91 \<notin> set n" and "93 \<notin> set n" and "\<not> sublist n (u ''AD SOYAD'')"
    and "create_email_message w self t c b p n = Inr m"
  shows "msg_body m = str_replace placeholder n b \<and> \<not> sublist placeholder (msg_body m)"
  using assms replace_no_old [OF assms(1,2,3) placeholder_shape, of b]
  by (simp add: create_email_message_body)

theorem create_email_message_no_placeholder_witness:
  "91 \<notin> set (u ''Ada Kaya'') \<and> 93 \<notin> set (u ''Ada Kaya'') \<and>
   \<not> sublist (u ''Ada Kaya'') (u ''AD SOYAD'') \<and>
   create_email_message world_ok sender0 (u ''hr@firm.co'') (u ''Firm'')
     (u ''I am [AD SOYAD]. [AD SOYAD]'') [] (u ''Ada Kaya'') =
     Inr \<lparr>msg_from = u ''me@x.co'', msg_to = u ''hr@firm.co'',
          msg_subject = u ''Staj Ba'' @ [351] @ u ''vurusu - Ada Kaya'',
          msg_body = u ''I am Ada Kaya. Ada Kaya'', msg_attachments = []\<rparr> \<and>
   \<not> sublist placeholder (u ''I am Ada Kaya. Ada Kaya'')"
proof -
  have h1: "91 \<notin> set (u ''Ada Kaya'')" and h2: "93 \<notin> set (u ''Ada Kaya'')"
    by (simp_all add: u_def)
  have h3: "\<not> sublist (u ''Ada Kaya'') (u ''AD SOYAD'')"
    by (simp add: u_def sublist_code)
  have h4: "create_email_message world_ok sender0 (u ''hr@firm.co'') (u ''Firm'')
     (u ''I am [AD SOYAD]. [AD SOYAD]'') [] (u ''Ada Kaya'') =
     Inr \<lparr>msg_from = u ''me@x.co'', msg_to = u ''hr@firm.co'',
          msg_subject = u ''Staj Ba'' @ [351] @ u ''vurusu - Ada Kaya'',
          msg_body = u ''I am Ada Kaya. Ada Kaya'', msg_attachments = []\<rparr>"
    by (simp add: create_email_message_def MIMEText_def utf8_escapable_def placeholder_def
        sender0_def u_def)
  have h5: "\<not> sublist placeholder (u ''I am Ada Kaya. Ada Kaya'')"
    using create_email_message_no_placeholder [OF h1 h2 h3 h4, THEN conjunct2] by simp
  from h1 h2 h3 h4 h5 show ?thesis by blast
qed

text \<open>
  C10, as stated, fails: \<open>True\<close> is not returned exactly when the transmission
  completes.  With a relay that accepts the message and answers the closing \<open>QUIT\<close> with
  an error, every step of the \<open>with\<close> block goes through, \<open>sendmail\<close> included, and the
  exception of \<open>SMTP.__exit__\<close> makes the function return \<open>False\<close>.
\<close>

theorem quit_refused_counterexample:
  "with_body world_quit_refused
     \<lparr>msg_from = u ''me@x.co'', msg_to = u ''hr@firm.co'',
      msg_subject = u ''Staj Ba'' @ [351] @ u ''vurusu - Ada Kaya'',
      msg_body = u ''Hello'', msg_attachments = []\<rparr> = None \<and>
   send_application_email world_quit_refused sender0 (u ''hr@firm.co'') (u ''Firm'')
     (u ''Hello'') [] (u ''Ada Kaya'') = Inr False"
  by (simp add: send_application_email_def send_attempt_def create_email_message_def
      MIMEText_def utf8_escapable_def smtp_session_def with_body_def smtp_exit_def
      world_quit_refused_def world_ok_def sender0_def placeholder_def u_def)

text \<open>
  C10, amended: \<open>send_application_email\<close> returns a boolean for every world and every
  argument, so no exception reaches its caller; and the boolean is \<open>True\<close> exactly when the
  message was built (the body could be encoded and a CV that exists could be read; a
  missing one is only warned about), the message could be flattened, and every step of
  the SMTP session went through: the connection, \<open>starttls\<close>, \<open>login\<close>, \<open>sendmail\<close>
  and the closing \<open>QUIT\<close>, where a connection found closed at \<open>QUIT\<close> counts as success.
\<close>

theorem send_application_email_total:
  "send_application_email w self t c b p n =
     Inr (flattened w (create_email_message w self t c b p n) \<and>
          smtp_connect w = None \<and> smtp_starttls w = None \<and> smtp_login w = None \<and>
          smtp_sendmail w = None \<and> smtp_exit w = None)"
  by (auto simp: send_application_email_def send_attempt_def flattened_def smtp_session_def
        with_body_def split: sum.splits option.splits)

subsection \<open>The batch loop\<close>

lemmas send_eval = send_application_email_def send_attempt_def create_email_message_def
  MIMEText_def utf8_escapable_def smtp_session_def with_body_def smtp_exit_def
  world_ok_def world_refused_def sender0_def placeholder_def u_def

lemmas batch_eval = send_batch_emails_def iteration_def try_block_def except_block_def
  time_sleep_def sleep_error_def record_success_def record_failure_def init_state_def
  truediv_def float_limit_def worlds_def company_def uptime_def Let_def

lemma float_limit_ge: "2 \<le> float_limit"
proof -
  have "(2::int) ^ 1024 = 2 ^ 970 * 2 ^ 54"
    unfolding power_add [symmetric] by simp
  then have "float_limit = 2 ^ 970 * (2 ^ 54 - 1)"
    unfolding float_limit_def by (simp only: right_diff_distrib mult_1_right)
  moreover have "(1::int) * 2 \<le> 2 ^ 970 * (2 ^ 54 - 1)"
    by (rule mult_mono) simp_all
  ultimately show ?thesis by simp
qed

lemma truediv_le:
  assumes "0 \<le> a" and "a \<le> b" and "b \<noteq> 0"
  shows "truediv a b = Inr (of_int a / of_int b)"
proof -
  have b: "0 < b" using assms by simp
  have "\<bar>a\<bar> < 2 * \<bar>b\<bar>" using assms b by simp
  also have "\<dots> \<le> float_limit * \<bar>b\<bar>" using float_limit_ge by (simp add: mult_right_mono)
  finally show ?thesis using assms by (simp add: truediv_def)
qed

lemma send_application_email_not_Inl [simp]:
  "send_application_email w self t c b p n \<noteq> Inl e"
  by (auto simp: send_application_email_def split: sum.splits)

text \<open>One iteration when the sleeps are accepted.\<close>

lemma sleep_ok_half: "sleep_ok limit delay \<Longrightarrow> sleep_ok limit (delay div 2)"
  by (auto simp: sleep_ok_def)

lemma sleep_ok_error: "sleep_ok limit secs \<Longrightarrow> sleep_error limit secs = None"
  by (auto simp: sleep_ok_def sleep_error_def)

lemma try_block_no_keys:
  "\<not> has_keys c \<Longrightarrow> try_block limits ws self tot cv app delay i c b st = (Some KeyError, st)"
  by (auto simp: try_block_def has_keys_def split: option.splits)

lemma names_where_single:
  "names_where P i [p] = (if P i p then [recorded_name (fst p)] else [])"
  by simp

lemma run_events_single:
  "run_events ws self cv app tot delay i [p] =
     call ws self cv app i p @
     (if int i < tot - 1 then [Sleep (if has_keys (fst p) then delay else delay div 2)] else [])"
  by simp

lemma iteration_ok:
  assumes "sleep_ok (limits i) delay"
  shows "iteration limits ws self tot cv app delay i (fst p) (snd p) st =
    (None,
     st\<lparr>res := \<lparr>successful = successful (res st) @ names_where (accepted ws self cv app) i [p],
                failed = failed (res st) @ names_where (\<lambda>i p. \<not> accepted ws self cv app i p) i [p],
                total_sent = total_sent (res st) +
                  int (length (names_where (accepted ws self cv app) i [p])),
                total_failed = total_failed (res st) +
                  int (length (names_where (\<lambda>i p. \<not> accepted ws self cv app i p) i [p]))\<rparr>,
        trace := trace st @ run_events ws self cv app tot delay i [p]\<rparr>)"
proof -
  note e1 = sleep_ok_error [OF assms]
  note e2 = sleep_ok_error [OF sleep_ok_half [OF assms]]
  show ?thesis
  proof (cases "has_keys (fst p)")
    case False
    have a: "\<not> accepted ws self cv app i p" using False by (simp add: accepted_def)
    have c: "call ws self cv app i p = []" using False by (simp add: call_def)
    show ?thesis
      unfolding names_where_single run_events_single
      using False a c
      by (simp add: iteration_def try_block_no_keys except_block_def time_sleep_def e2
          recorded_name_def record_failure_def)
  next
    case True
    then obtain nm addr where k: "fst p (u ''sirket_adi'') = Some nm"
      "fst p (u ''email'') = Some addr" by (auto simp: has_keys_def)
    obtain ok where r: "send_application_email (ws i) self addr nm (snd p) cv app = Inr ok"
      by (cases "send_application_email (ws i) self addr nm (snd p) cv app") auto
    have sr: "send_result ws self cv app i p = Inr ok" using k r by (simp add: send_result_def)
    have a: "accepted ws self cv app i p = ok" using True sr by (simp add: accepted_def)
    have c: "call ws self cv app i p = [Send addr nm (snd p) (Inr ok)]"
      using True k sr by (simp add: call_def)
    have n: "recorded_name (fst p) = nm" using k by (simp add: recorded_name_def)
    show ?thesis
      unfolding names_where_single run_events_single
      using True
      by (cases ok)
         (simp_all add: a c n iteration_def try_block_def k r time_sleep_def e1
           record_success_def record_failure_def)
  qed
qed

lemma names_where_Cons:
  "names_where P i (p # ps) = names_where P i [p] @ names_where P (Suc i) ps"
  by simp

lemma run_events_Cons:
  "run_events ws self cv app tot delay i (p # ps) =
   run_events ws self cv app tot delay i [p] @ run_events ws self cv app tot delay (Suc i) ps"
  by simp

lemma batch_loop_ok:
  assumes "\<forall>i. sleep_ok (limits i) delay"
  shows "batch_loop limits ws self tot cv app delay i ps st =
    (None,
     st\<lparr>res := \<lparr>successful = successful (res st) @ names_where (accepted ws self cv app) i ps,
                failed = failed (res st) @ names_where (\<lambda>i p. \<not> accepted ws self cv app i p) i ps,
                total_sent = total_sent (res st) +
                  int (length (names_where (accepted ws self cv app) i ps)),
                total_failed = total_failed (res st) +
                  int (length (names_where (\<lambda>i p. \<not> accepted ws self cv app i p) i ps))\<rparr>,
        trace := trace st @ run_events ws self cv app tot delay i ps\<rparr>)"
proof (induction ps arbitrary: i st)
  case Nil
  then show ?case by simp
next
  case (Cons p ps)
  from assms have ok: "sleep_ok (limits i) delay" by simp
  note it = iteration_ok [of limits i delay ws self tot cv app p st, OF ok]
  have "batch_loop limits ws self tot cv app delay i (p # ps) st =
        batch_loop limits ws self tot cv app delay (Suc i) ps (snd (iteration limits ws self tot cv app delay i (fst p) (snd p) st))"
    by (simp add: it)
  also note Cons.IH
  finally show ?case
    unfolding names_where_Cons [of _ i p ps] run_events_Cons [of _ _ _ _ _ _ i p ps]
    by (simp add: it)
qed

text \<open>One iteration in general: the shape of its result, whatever the sleeps do.\<close>

lemma try_block_keys:
  assumes "has_keys (fst p)"
  shows "try_block limits ws self tot cv app delay i (fst p) (snd p) st =
           (if int i < tot - 1 then time_sleep (limits i) delay (after_send ws self cv app i p st)
            else (None, after_send ws self cv app i p st))"
proof -
  from assms obtain nm addr where k: "fst p (u ''sirket_adi'') = Some nm"
    "fst p (u ''email'') = Some addr" by (auto simp: has_keys_def)
  obtain ok where r: "send_application_email (ws i) self addr nm (snd p) cv app = Inr ok"
    by (cases "send_application_email (ws i) self addr nm (snd p) cv app") auto
  have sr: "send_result ws self cv app i p = Inr ok" using k r by (simp add: send_result_def)
  have a: "accepted ws self cv app i p = ok" using assms sr by (simp add: accepted_def)
  have c: "call ws self cv app i p = [Send addr nm (snd p) (Inr ok)]"
    using assms k sr by (simp add: call_def)
  have n: "recorded_name (fst p) = nm" using k by (simp add: recorded_name_def)
  show ?thesis
    by (cases ok) (simp_all add: try_block_def k r after_send_def a c n)
qed

lemma fst_time_sleep: "fst (time_sleep limit secs st) = sleep_error limit secs"
  by (simp add: time_sleep_def split: option.splits)

lemma res_time_sleep: "res (snd (time_sleep limit secs st)) = res st"
  by (simp add: time_sleep_def split: option.splits)

lemma fst_except_block:
  "fst (except_block limits tot delay i c st) =
     (if int i < tot - 1 then sleep_error (limits i) (delay div 2) else None)"
  by (simp add: except_block_def fst_time_sleep Let_def)

lemma res_except_block:
  "res (snd (except_block limits tot delay i c st)) = res (record_failure (recorded_name c) st)"
  by (simp add: except_block_def res_time_sleep recorded_name_def Let_def)

lemma iteration_no_keys:
  "\<not> has_keys c \<Longrightarrow>
   iteration limits ws self tot cv app delay i c b st = except_block limits tot delay i c st"
  by (simp add: iteration_def try_block_no_keys)

lemma iteration_keys:
  assumes "has_keys (fst p)"
  shows "iteration limits ws self tot cv app delay i (fst p) (snd p) st =
           (if int i < tot - 1 \<and> sleep_error (limits i) delay \<noteq> None
            then except_block limits tot delay i (fst p) (after_send ws self cv app i p st)
            else if int i < tot - 1
            then (None, (after_send ws self cv app i p st)
                          \<lparr>trace := trace (after_send ws self cv app i p st) @ [Sleep delay]\<rparr>)
            else (None, after_send ws self cv app i p st))"
  by (auto simp: iteration_def try_block_keys [OF assms] time_sleep_def split: option.splits)

lemma sleep_error_half:
  "sleep_error limit delay = None \<Longrightarrow> sleep_error limit (delay div 2) = None"
  by (auto simp: sleep_error_def split: if_splits)

lemma fst_iteration:
  "fst (iteration limits ws self tot cv app delay i (fst p) (snd p) st) =
     iteration_error limits tot delay i"
proof (cases "has_keys (fst p)")
  case False
  then show ?thesis by (simp add: iteration_no_keys fst_except_block iteration_error_def)
next
  case True
  show ?thesis
  proof (cases "sleep_error (limits i) delay")
    case None
    with sleep_error_half [OF None] show ?thesis
      by (simp add: iteration_keys [OF True] iteration_error_def)
  next
    case (Some e)
    then show ?thesis
      by (simp add: iteration_keys [OF True] fst_except_block iteration_error_def)
  qed
qed


text \<open>The counter of successes grows by at most one in an iteration.\<close>

lemma total_sent_after_send:
  "total_sent (res (after_send ws self cv app i p st)) =
     total_sent (res st) + (if accepted ws self cv app i p then 1 else 0)"
  by (simp add: after_send_def record_success_def record_failure_def)

lemma total_sent_iteration:
  "total_sent (res st) \<le>
     total_sent (res (snd (iteration limits ws self tot cv app delay i (fst p) (snd p) st))) \<and>
   total_sent (res (snd (iteration limits ws self tot cv app delay i (fst p) (snd p) st))) \<le>
     total_sent (res st) + 1"
proof (cases "has_keys (fst p)")
  case False
  then show ?thesis
    by (simp add: iteration_no_keys res_except_block record_failure_def)
next
  case True
  show ?thesis
    by (simp add: iteration_keys [OF True] res_except_block record_failure_def
        total_sent_after_send)
qed

lemma total_sent_batch_loop:
  "total_sent (res st) \<le>
     total_sent (res (snd (batch_loop limits ws self tot cv app delay i ps st))) \<and>
   total_sent (res (snd (batch_loop limits ws self tot cv app delay i ps st))) \<le>
     total_sent (res st) + int (length ps)"
proof (induction ps arbitrary: i st)
  case Nil
  then show ?case by simp
next
  case (Cons p ps)
  obtain r st1 where it: "iteration limits ws self tot cv app delay i (fst p) (snd p) st = (r, st1)"
    by (cases "iteration limits ws self tot cv app delay i (fst p) (snd p) st")
  from total_sent_iteration [of st limits ws self tot cv app delay i p] it
  have b: "total_sent (res st) \<le> total_sent (res st1)"
    "total_sent (res st1) \<le> total_sent (res st) + 1" by simp_all
  show ?case
  proof (cases r)
    case None
    with it Cons.IH [where i = "Suc i" and st = st1] b show ?thesis by simp
  next
    case (Some e)
    with it b show ?thesis by simp
  qed
qed

text \<open>
  The summary at the end of the call: its division fails exactly on an empty
  \<open>companies_data\<close>.
\<close>

lemma summary_division:
  assumes "batch_loop limits ws self (int (length cs)) cv app delay 0 (zip cs bs) init_state = (r, st)"
  shows "truediv (total_sent (res st)) (int (length cs)) =
           (if cs = [] then Inl ZeroDivisionError
            else Inr (of_int (total_sent (res st)) / of_int (int (length cs))))"
proof (cases "cs = []")
  case True
  then show ?thesis by (simp add: truediv_def)
next
  case False
  from total_sent_batch_loop [of init_state limits ws self "int (length cs)" cv app delay 0 "zip cs bs"]
    assms
  have "0 \<le> total_sent (res st)" "total_sent (res st) \<le> int (length cs)"
    by (auto simp: init_state_def)
  with False show ?thesis by (simp add: truediv_le)
qed

lemma send_batch_emails_unfold:
  assumes "batch_loop limits ws self (int (length cs)) cv app delay 0 (zip cs bs) init_state = (r, st)"
  shows "send_batch_emails limits ws self cs bs cv app delay =
     (case r of
        Some e \<Rightarrow> \<lparr>returned = Inl e, events = trace st, logged_rate = None\<rparr>
      | None \<Rightarrow>
          if cs = [] then \<lparr>returned = Inl ZeroDivisionError, events = trace st, logged_rate = None\<rparr>
          else \<lparr>returned = Inr (res st), events = trace st,
                logged_rate = Some (of_int (total_sent (res st)) / of_int (int (length cs)) * 100)\<rparr>)"
proof -
  note d = summary_division [OF assms]
  have e: "send_batch_emails limits ws self cs bs cv app delay =
     (case r of
        Some e \<Rightarrow> \<lparr>returned = Inl e, events = trace st, logged_rate = None\<rparr>
      | None \<Rightarrow>
          (case truediv (total_sent (res st)) (int (length cs)) of
             Inl e \<Rightarrow> \<lparr>returned = Inl e, events = trace st, logged_rate = None\<rparr>
           | Inr q \<Rightarrow>
               \<lparr>returned = Inr (res st), events = trace st, logged_rate = Some (q * 100)\<rparr>))"
    unfolding send_batch_emails_def Let_def assms
    by (cases r) (simp_all split: sum.splits)
  show ?thesis
    unfolding e d by (cases "cs = []") (simp_all split: option.splits)
qed


text \<open>An iteration that lets no exception out, when no sleep is refused for its length.\<close>

lemma iteration_last:
  assumes "\<not> int i < tot - 1"
  shows "iteration limits ws self tot cv app delay i (fst p) (snd p) st =
         iteration (\<lambda>i. 0) ws self tot cv app 0 i (fst p) (snd p) st"
proof (cases "has_keys (fst p)")
  case False
  then show ?thesis using assms by (simp add: iteration_no_keys except_block_def)
next
  case True
  show ?thesis using assms by (simp add: iteration_keys [OF True])
qed

lemma iteration_None_res:
  assumes it: "iteration limits ws self tot cv app delay i (fst p) (snd p) st = (None, st')"
    and le: "delay \<le> sleep_max (limits i)"
  shows "res st' =
     \<lparr>successful = successful (res st) @ names_where (accepted ws self cv app) i [p],
      failed = failed (res st) @ names_where (\<lambda>i p. \<not> accepted ws self cv app i p) i [p],
      total_sent = total_sent (res st) +
        int (length (names_where (accepted ws self cv app) i [p])),
      total_failed = total_failed (res st) +
        int (length (names_where (\<lambda>i p. \<not> accepted ws self cv app i p) i [p]))\<rparr>"
proof (cases "int i < tot - 1")
  case False
  have ok: "sleep_ok ((\<lambda>i. 0) i) 0" by (simp add: sleep_ok_def)
  from it have s: "st' = snd (iteration limits ws self tot cv app delay i (fst p) (snd p) st)"
    by simp
  show ?thesis
    unfolding s iteration_last [OF False, of limits ws self cv app delay p st]
      iteration_ok [of "\<lambda>i. 0" i 0 ws self tot cv app p st, OF ok]
    by simp
next
  case True
  show ?thesis
  proof (cases "0 \<le> delay")
    case nonneg: True
    with le have ok: "sleep_ok (limits i) delay" by (simp add: sleep_ok_def sleep_max_def)
    from it have s: "st' = snd (iteration limits ws self tot cv app delay i (fst p) (snd p) st)"
      by simp
    show ?thesis
      unfolding s iteration_ok [of limits i delay ws self tot cv app p st, OF ok]
      by simp
  next
    case False
    then have "sleep_error (limits i) (delay div 2) = Some ValueError"
      by (simp add: sleep_error_def)
    with True fst_iteration [of limits ws self tot cv app delay i p st] it
    show ?thesis by (simp add: iteration_error_def)
  qed
qed

lemma batch_loop_None_res:
  assumes "batch_loop limits ws self tot cv app delay i ps st = (None, st')"
    and le: "\<forall>i. delay \<le> sleep_max (limits i)"
  shows "res st' =
     \<lparr>successful = successful (res st) @ names_where (accepted ws self cv app) i ps,
      failed = failed (res st) @ names_where (\<lambda>i p. \<not> accepted ws self cv app i p) i ps,
      total_sent = total_sent (res st) +
        int (length (names_where (accepted ws self cv app) i ps)),
      total_failed = total_failed (res st) +
        int (length (names_where (\<lambda>i p. \<not> accepted ws self cv app i p) i ps))\<rparr>"
  using assms(1)
proof (induction ps arbitrary: i st)
  case Nil
  then show ?case by simp
next
  case (Cons p ps)
  obtain r st1 where it: "iteration limits ws self tot cv app delay i (fst p) (snd p) st = (r, st1)"
    by (cases "iteration limits ws self tot cv app delay i (fst p) (snd p) st")
  with Cons.prems have r: "r = None"
    and rest: "batch_loop limits ws self tot cv app delay (Suc i) ps st1 = (None, st')"
    by (auto split: option.splits)
  from le have l: "delay \<le> sleep_max (limits i)" by simp
  note one = iteration_None_res [OF it [unfolded r] l]
  note ih = Cons.IH [OF rest]
  show ?case
    unfolding ih names_where_Cons [of _ i p ps] by (simp add: one)
qed

lemma names_where_split:
  "mset (names_where P i ps) + mset (names_where (\<lambda>i p. \<not> P i p) i ps) =
     mset (map (recorded_name \<circ> fst) ps)"
  by (induction ps arbitrary: i) auto

lemma names_where_length:
  "length (names_where P i ps) + length (names_where (\<lambda>i p. \<not> P i p) i ps) = length ps"
  by (induction ps arbitrary: i) auto

lemma names_zip: "map (recorded_name \<circ> fst) (zip cs bs) = map recorded_name (take (length bs) cs)"
proof -
  have "map (recorded_name \<circ> fst) (zip cs bs) = map recorded_name (map fst (zip cs bs))" by simp
  also have "map fst (zip cs bs) = take (min (length cs) (length bs)) cs" by (rule map_fst_zip_take)
  also have "\<dots> = take (length bs) cs" by (simp add: min_def)
  finally show ?thesis .
qed

lemma send_batch_emails_Inr:
  assumes "returned (send_batch_emails limits ws self cs bs cv app delay) = Inr r"
  shows "\<exists>st. batch_loop limits ws self (int (length cs)) cv app delay 0 (zip cs bs) init_state =
               (None, st) \<and> r = res st \<and> cs \<noteq> []"
proof -
  obtain e st where l:
    "batch_loop limits ws self (int (length cs)) cv app delay 0 (zip cs bs) init_state = (e, st)"
    by (cases "batch_loop limits ws self (int (length cs)) cv app delay 0 (zip cs bs) init_state")
  from assms show ?thesis
    unfolding send_batch_emails_unfold [OF l] l
    by (cases e; cases "cs = []") simp_all
qed

lemma results_of_run:
  assumes "returned (send_batch_emails limits ws self cs bs cv app delay) = Inr r"
    and "\<forall>i. delay \<le> sleep_max (limits i)"
  shows "successful r = names_where (accepted ws self cv app) 0 (zip cs bs)"
    and "failed r = names_where (\<lambda>i p. \<not> accepted ws self cv app i p) 0 (zip cs bs)"
    and "total_sent r = int (length (successful r))"
    and "total_failed r = int (length (failed r))"
proof -
  from send_batch_emails_Inr [OF assms(1)] obtain st where
    l: "batch_loop limits ws self (int (length cs)) cv app delay 0 (zip cs bs) init_state = (None, st)"
    and r: "r = res st" by blast
  note b = batch_loop_None_res [OF l assms(2)]
  show "successful r = names_where (accepted ws self cv app) 0 (zip cs bs)"
    and "failed r = names_where (\<lambda>i p. \<not> accepted ws self cv app i p) 0 (zip cs bs)"
    and "total_sent r = int (length (successful r))"
    and "total_failed r = int (length (failed r))"
    unfolding r b by (simp_all add: init_state_def)
qed

lemma send_batch_emails_ok:
  assumes "\<forall>i. sleep_ok (limits i) delay" and "cs \<noteq> []"
  shows "send_batch_emails limits ws self cs bs cv app delay =
    \<lparr>returned = Inr
       \<lparr>successful = names_where (accepted ws self cv app) 0 (zip cs bs),
        failed = names_where (\<lambda>i p. \<not> accepted ws self cv app i p) 0 (zip cs bs),
        total_sent = int (length (names_where (accepted ws self cv app) 0 (zip cs bs))),
        total_failed =
          int (length (names_where (\<lambda>i p. \<not> accepted ws self cv app i p) 0 (zip cs bs)))\<rparr>,
     events = run_events ws self cv app (int (length cs)) delay 0 (zip cs bs),
     logged_rate = Some (of_int (int (length (names_where (accepted ws self cv app) 0 (zip cs bs)))) /
                         of_int (int (length cs)) * 100)\<rparr>"
  unfolding send_batch_emails_unfold [OF batch_loop_ok [OF assms(1)]]
  using assms(2) by (simp add: init_state_def)

lemma events_send_batch_emails:
  assumes "\<forall>i. sleep_ok (limits i) delay"
  shows "events (send_batch_emails limits ws self cs bs cv app delay) =
           run_events ws self cv app (int (length cs)) delay 0 (zip cs bs)"
  unfolding send_batch_emails_unfold [OF batch_loop_ok [OF assms]]
  by (simp add: init_state_def)

lemma sends_of_run_events:
  "filter is_Send (run_events ws self cv app tot delay i ps) = calls ws self cv app i ps"
  by (induction ps arbitrary: i) (auto simp: call_def)

lemma run_events_paced:
  "tot = int (i + length ps) \<Longrightarrow>
   run_events ws self cv app tot delay i ps = paced ws self cv app delay i ps"
proof (induction ps arbitrary: i)
  case Nil
  then show ?case by simp
next
  case (Cons p ps)
  have "tot = int (Suc i + length ps)" using Cons.prems by simp
  from Cons.IH [OF this] Cons.prems show ?case by auto
qed

lemma length_calls:
  "length (calls ws self cv app i ps) = length (filter has_keys (map fst ps))"
  by (induction ps arbitrary: i) (auto simp: call_def)

lemma fst_zip_take: "map fst (zip cs bs) = take (length bs) cs"
proof -
  have "map fst (zip cs bs) = take (min (length cs) (length bs)) cs" by (rule map_fst_zip_take)
  also have "\<dots> = take (length bs) cs" by (simp add: min_def)
  finally show ?thesis .
qed

text \<open>
  C2, as stated, fails twice.  Company names need not be distinct (the reader removes
  duplicate addresses, not duplicate names): of two companies called \<open>Acme\<close>, the first
  send accepted and the second refused, the name is in both sequences.  And a delay that
  \<open>time.sleep\<close> refuses while it accepts its half puts one company into both sequences:
  with \<open>delay_seconds = 10000000000\<close> the send to \<open>A\<close> is recorded as successful, the
  sleep after it raises \<open>OverflowError\<close> inside the \<open>try\<close> block, and the handler records
  \<open>A\<close> as failed; three outcomes are counted for two sends.
\<close>

theorem both_sequences_counterexample:
  "returned (send_batch_emails uptime (worlds [world_ok, world_refused]) sender0
     [company ''Acme'' ''a@x.co'', company ''Acme'' ''b@x.co''] [u ''Hello'', u ''Hello'']
     [] (u ''Ada Kaya'') 30) =
   Inr \<lparr>successful = [u ''Acme''], failed = [u ''Acme''], total_sent = 1, total_failed = 1\<rparr> \<and>
   returned (send_batch_emails uptime (worlds []) sender0
     [company ''A'' ''a@x.co'', company ''B'' ''b@x.co''] [u ''Hello'', u ''Hello'']
     [] (u ''Ada Kaya'') 10000000000) =
   Inr \<lparr>successful = [u ''A'', u ''B''], failed = [u ''A''], total_sent = 2, total_failed = 1\<rparr>"
  by (simp add: batch_eval send_eval)

text \<open>
  C2, amended: whenever the call returns a dictionary for a delay that is not above what
  \<open>time.sleep\<close> accepts, \<open>total_sent + total_failed\<close> is the number of processed pairs,
  \<open>min (len companies_data) (len email_bodies)\<close>; the two counters are the lengths of the
  two sequences; the names in the two sequences together are, with multiplicity, the names
  of the processed companies (\<open>Bilinmeyen\<close> for a dictionary without a name); and the
  sequences are disjoint when those names are pairwise distinct.
\<close>

theorem send_batch_emails_accounting:
  assumes "returned (send_batch_emails limits ws self cs bs cv app delay) = Inr r"
    and "\<forall>i. delay \<le> sleep_max (limits i)"
  shows "total_sent r + total_failed r = int (min (length cs) (length bs)) \<and>
         total_sent r = int (length (successful r)) \<and>
         total_failed r = int (length (failed r)) \<and>
         mset (successful r) + mset (failed r) = mset (map recorded_name (take (length bs) cs)) \<and>
         (distinct (map recorded_name (take (length bs) cs)) \<longrightarrow>
            set (successful r) \<inter> set (failed r) = {})"
proof -
  note m = results_of_run [OF assms]
  have ms: "mset (successful r) + mset (failed r) = mset (map recorded_name (take (length bs) cs))"
    unfolding m(1,2) names_where_split names_zip ..
  have "length (successful r) + length (failed r) = length (zip cs bs)"
    unfolding m(1,2) names_where_length ..
  then have len: "length (successful r) + length (failed r) = min (length cs) (length bs)"
    by simp
  have dis: "set (successful r) \<inter> set (failed r) = {}"
    if d: "distinct (map recorded_name (take (length bs) cs))"
  proof -
    have "mset (successful r @ failed r) = mset (map recorded_name (take (length bs) cs))"
      using ms by simp
    then have "distinct (successful r @ failed r)"
      using d by (metis mset_eq_imp_distinct_iff)
    then show ?thesis by simp
  qed
  have sum: "total_sent r + total_failed r = int (min (length cs) (length bs))"
    unfolding m(3,4) using len by linarith
  from sum m(3,4) ms dis show ?thesis by blast
qed

theorem send_batch_emails_accounting_witness:
  "returned (send_batch_emails uptime (worlds [world_ok, world_refused]) sender0
     [company ''A'' ''a@x.co'', company ''B'' ''b@x.co''] [u ''Hello'', u ''Hello'']
     [] (u ''Ada Kaya'') 30) =
     Inr \<lparr>successful = [u ''A''], failed = [u ''B''], total_sent = 1, total_failed = 1\<rparr> \<and>
   (\<forall>i. 30 \<le> sleep_max (uptime i)) \<and>
   distinct (map recorded_name (take (length [u ''Hello'', u ''Hello''])
     [company ''A'' ''a@x.co'', company ''B'' ''b@x.co''])) \<and>
   set [u ''A''] \<inter> set [u ''B''] = {}"
proof -
  have h: "returned (send_batch_emails uptime (worlds [world_ok, world_refused]) sender0
     [company ''A'' ''a@x.co'', company ''B'' ''b@x.co''] [u ''Hello'', u ''Hello'']
     [] (u ''Ada Kaya'') 30) =
     Inr \<lparr>successful = [u ''A''], failed = [u ''B''], total_sent = 1, total_failed = 1\<rparr>"
    by (simp add: batch_eval send_eval)
  have l: "\<forall>i. 30 \<le> sleep_max (uptime i)" by (simp add: sleep_max_def uptime_def)
  have d: "distinct (map recorded_name (take (length [u ''Hello'', u ''Hello''])
     [company ''A'' ''a@x.co'', company ''B'' ''b@x.co'']))"
    by (simp add: recorded_name_def company_def u_def)
  from send_batch_emails_accounting [OF h l] d
  have "set [u ''A''] \<inter> set [u ''B''] = {}" by simp
  with h l d show ?thesis by blast
qed




text \<open>
  C6, as stated, fails: the halved delay is not the policy for failed sends.  The send to
  \<open>A\<close> returns failure and is followed by the full delay; the halved delay follows only
  an iteration that raised (here the dictionary of \<open>B\<close> has no key \<open>email\<close>).
\<close>

theorem pacing_counterexample:
  "events (send_batch_emails uptime (worlds [world_refused]) sender0
     [company ''A'' ''a@x.co'', [u ''sirket_adi'' \<mapsto> u ''B''], company ''C'' ''c@x.co'']
     [u ''Hello'', u ''Hello'', u ''Hello''] [] (u ''Ada Kaya'') 30) =
   [Send (u ''a@x.co'') (u ''A'') (u ''Hello'') (Inr False), Sleep 30, Sleep 15,
    Send (u ''c@x.co'') (u ''C'') (u ''Hello'') (Inr True)]"
  by (simp add: batch_eval send_eval)

text \<open>
  C6, amended: for a delay that \<open>time.sleep\<close> accepts and at least as many bodies as
  companies, the events of the call are those of \<open>paced\<close>: the pairs are taken in order;
  a pair with both keys is sent; after every pair except the last the loop sleeps,
  \<open>delay_seconds\<close> when the send returned, with success or with failure alike, and
  \<open>delay_seconds // 2\<close> when the iteration raised because the dictionary lacks a key; and
  nothing else is sent or slept.
\<close>

theorem send_batch_emails_pauses:
  assumes "\<forall>i. sleep_ok (limits i) delay" and "length cs \<le> length bs"
  shows "events (send_batch_emails limits ws self cs bs cv app delay) =
           paced ws self cv app delay 0 (zip cs bs)"
proof -
  have "int (length cs) = int (0 + length (zip cs bs))" using assms(2) by simp
  from run_events_paced [OF this] events_send_batch_emails [OF assms(1)]
  show ?thesis by simp
qed

theorem send_batch_emails_pauses_witness:
  "(\<forall>i. sleep_ok (uptime i) 30) \<and>
   length [company ''A'' ''a@x.co'', [u ''sirket_adi'' \<mapsto> u ''B''], company ''C'' ''c@x.co''] \<le>
     length [u ''Hello'', u ''Hello'', u ''Hello''] \<and>
   events (send_batch_emails uptime (worlds [world_refused]) sender0
     [company ''A'' ''a@x.co'', [u ''sirket_adi'' \<mapsto> u ''B''], company ''C'' ''c@x.co'']
     [u ''Hello'', u ''Hello'', u ''Hello''] [] (u ''Ada Kaya'') 30) =
   [Send (u ''a@x.co'') (u ''A'') (u ''Hello'') (Inr False), Sleep 30, Sleep 15,
    Send (u ''c@x.co'') (u ''C'') (u ''Hello'') (Inr True)]"
proof -
  let ?cs = "[company ''A'' ''a@x.co'', [u ''sirket_adi'' \<mapsto> u ''B''], company ''C'' ''c@x.co'']"
  let ?bs = "[u ''Hello'', u ''Hello'', u ''Hello'']"
  have h1: "\<forall>i. sleep_ok (uptime i) 30" by (simp add: sleep_ok_def uptime_def)
  have h2: "length ?cs \<le> length ?bs" by simp
  have p: "paced (worlds [world_refused]) sender0 [] (u ''Ada Kaya'') 30 0 (zip ?cs ?bs) =
     [Send (u ''a@x.co'') (u ''A'') (u ''Hello'') (Inr False), Sleep 30, Sleep 15,
      Send (u ''c@x.co'') (u ''C'') (u ''Hello'') (Inr True)]"
    by (simp add: call_def has_keys_def send_result_def company_def worlds_def send_eval)
  from send_batch_emails_pauses [OF h1 h2, of "worlds [world_refused]" sender0 "[]" "u ''Ada Kaya''"]
  have "events (send_batch_emails uptime (worlds [world_refused]) sender0 ?cs ?bs []
          (u ''Ada Kaya'') 30) =
     [Send (u ''a@x.co'') (u ''A'') (u ''Hello'') (Inr False), Sleep 30, Sleep 15,
      Send (u ''c@x.co'') (u ''C'') (u ''Hello'') (Inr True)]"
    unfolding p .
  with h1 h2 show ?thesis by blast
qed

text \<open>
  C9, as stated, fails: the number of sends is not always the smaller of the two lengths.
  Of two companies with two bodies, one send is made when \<open>delay_seconds\<close> is \<open>-1\<close> (the
  sleep after it raises and ends the call), and one send is made when the dictionary of
  the second company has no key \<open>email\<close> (the pair is recorded as failed without a send).
\<close>

theorem fewer_sends_counterexample:
  "send_batch_emails uptime (worlds []) sender0
     [company ''A'' ''a@x.co'', company ''B'' ''b@x.co''] [u ''Hello'', u ''Hello'']
     [] (u ''Ada Kaya'') (- 1) =
   \<lparr>returned = Inl ValueError,
    events = [Send (u ''a@x.co'') (u ''A'') (u ''Hello'') (Inr True)],
    logged_rate = None\<rparr> \<and>
   returned (send_batch_emails uptime (worlds []) sender0
     [company ''A'' ''a@x.co'', [u ''sirket_adi'' \<mapsto> u ''B'']] [u ''Hello'', u ''Hello'']
     [] (u ''Ada Kaya'') 30) =
     Inr \<lparr>successful = [u ''A''], failed = [u ''B''], total_sent = 1, total_failed = 1\<rparr> \<and>
   events (send_batch_emails uptime (worlds []) sender0
     [company ''A'' ''a@x.co'', [u ''sirket_adi'' \<mapsto> u ''B'']] [u ''Hello'', u ''Hello'']
     [] (u ''Ada Kaya'') 30) =
     [Send (u ''a@x.co'') (u ''A'') (u ''Hello'') (Inr True), Sleep 30]"
  by (simp add: batch_eval send_eval)

text \<open>
  C9, amended: for a delay that \<open>time.sleep\<close> accepts and a non-empty
  \<open>companies_data\<close>, the call returns its dictionary and exactly the first
  \<open>min (len companies_data) (len email_bodies)\<close> pairs, taken by position, were processed:
  each is recorded once in \<open>successful\<close> or \<open>failed\<close> and the entries beyond are in
  neither; the sends are those of the processed pairs that have both keys, each company
  with the body at its position, so no send is made for an entry beyond; and the success
  rate of the summary is the number of successful sends divided by \<open>len(companies_data)\<close>,
  times 100.
\<close>

theorem send_batch_emails_pairs:
  assumes "\<forall>i. sleep_ok (limits i) delay" and "cs \<noteq> []"
  shows "\<exists>r. returned (send_batch_emails limits ws self cs bs cv app delay) = Inr r \<and>
           length (successful r) + length (failed r) = min (length cs) (length bs) \<and>
           mset (successful r) + mset (failed r) =
             mset (map recorded_name (take (length bs) cs)) \<and>
           filter is_Send (events (send_batch_emails limits ws self cs bs cv app delay)) =
             calls ws self cv app 0 (zip cs bs) \<and>
           length (filter is_Send (events (send_batch_emails limits ws self cs bs cv app delay))) =
             length (filter has_keys (take (length bs) cs)) \<and>
           logged_rate (send_batch_emails limits ws self cs bs cv app delay) =
             Some (of_nat (length (successful r)) / of_nat (length cs) * 100)"
proof -
  note e = send_batch_emails_ok [OF assms, of ws self bs cv app]
  let ?s = "names_where (accepted ws self cv app) 0 (zip cs bs)"
  let ?f = "names_where (\<lambda>i p. \<not> accepted ws self cv app i p) 0 (zip cs bs)"
  have len: "length ?s + length ?f = min (length cs) (length bs)"
    unfolding names_where_length by simp
  have ms: "mset ?s + mset ?f = mset (map recorded_name (take (length bs) cs))"
    unfolding names_where_split names_zip ..
  have c: "filter is_Send (run_events ws self cv app (int (length cs)) delay 0 (zip cs bs)) =
      calls ws self cv app 0 (zip cs bs)"
    by (rule sends_of_run_events)
  have n: "length (calls ws self cv app 0 (zip cs bs)) =
      length (filter has_keys (take (length bs) cs))"
    unfolding length_calls fst_zip_take ..
  show ?thesis
    unfolding e using len ms c n by simp
qed

theorem send_batch_emails_pairs_witness:
  "(\<forall>i. sleep_ok (uptime i) 30) \<and>
   [company ''A'' ''a@x.co'', company ''B'' ''b@x.co'', company ''C'' ''c@x.co''] \<noteq> [] \<and>
   send_batch_emails uptime (worlds []) sender0
     [company ''A'' ''a@x.co'', company ''B'' ''b@x.co'', company ''C'' ''c@x.co'']
     [u ''Hello'', u ''Bye''] [] (u ''Ada Kaya'') 30 =
   \<lparr>returned = Inr \<lparr>successful = [u ''A'', u ''B''], failed = [],
                     total_sent = 2, total_failed = 0\<rparr>,
    events = [Send (u ''a@x.co'') (u ''A'') (u ''Hello'') (Inr True), Sleep 30,
              Send (u ''b@x.co'') (u ''B'') (u ''Bye'') (Inr True), Sleep 30],
    logged_rate = Some (200 / 3)\<rparr> \<and>
   (\<exists>r. returned (send_batch_emails uptime (worlds []) sender0
          [company ''A'' ''a@x.co'', company ''B'' ''b@x.co'', company ''C'' ''c@x.co'']
          [u ''Hello'', u ''Bye''] [] (u ''Ada Kaya'') 30) = Inr r \<and>
        length (successful r) + length (failed r) = 2 \<and>
        logged_rate (send_batch_emails uptime (worlds []) sender0
          [company ''A'' ''a@x.co'', company ''B'' ''b@x.co'', company ''C'' ''c@x.co'']
          [u ''Hello'', u ''Bye''] [] (u ''Ada Kaya'') 30) =
          Some (of_nat (length (successful r)) / 3 * 100))"
proof -
  let ?cs = "[company ''A'' ''a@x.co'', company ''B'' ''b@x.co'', company ''C'' ''c@x.co'']"
  let ?bs = "[u ''Hello'', u ''Bye'']"
  have h1: "\<forall>i. sleep_ok (uptime i) 30" by (simp add: sleep_ok_def uptime_def)
  have h2: "?cs \<noteq> []" by simp
  have v: "send_batch_emails uptime (worlds []) sender0 ?cs ?bs [] (u ''Ada Kaya'') 30 =
   \<lparr>returned = Inr \<lparr>successful = [u ''A'', u ''B''], failed = [],
                     total_sent = 2, total_failed = 0\<rparr>,
    events = [Send (u ''a@x.co'') (u ''A'') (u ''Hello'') (Inr True), Sleep 30,
              Send (u ''b@x.co'') (u ''B'') (u ''Bye'') (Inr True), Sleep 30],
    logged_rate = Some (200 / 3)\<rparr>"
    by (simp add: batch_eval send_eval)
  from send_batch_emails_pairs [OF h1 h2, of "worlds []" sender0 ?bs "[]" "u ''Ada Kaya''"]
  obtain r where
    "returned (send_batch_emails uptime (worlds []) sender0 ?cs ?bs [] (u ''Ada Kaya'') 30) = Inr r"
    "length (successful r) + length (failed r) = min (length ?cs) (length ?bs)"
    "logged_rate (send_batch_emails uptime (worlds []) sender0 ?cs ?bs [] (u ''Ada Kaya'') 30) =
       Some (of_nat (length (successful r)) / of_nat (length ?cs) * 100)"
    by blast
  then have "\<exists>r. returned (send_batch_emails uptime (worlds []) sender0 ?cs ?bs []
                      (u ''Ada Kaya'') 30) = Inr r \<and>
        length (successful r) + length (failed r) = 2 \<and>
        logged_rate (send_batch_emails uptime (worlds []) sender0 ?cs ?bs [] (u ''Ada Kaya'') 30) =
          Some (of_nat (length (successful r)) / 3 * 100)"
    by auto
  with h1 h2 v show ?thesis by blast
qed

subsection \<open>The summary file\<close>







subsection \<open>Cleaning the generated text\<close>

lemma rstrip_Cons:
  "rstrip (a # l) = (if (\<forall>x\<in>set l. isspace x) then (if isspace a then [] else [a]) else a # rstrip l)"
proof (cases "\<forall>x\<in>set l. isspace x")
  case True
  then have "dropWhile isspace (rev l @ [a]) = dropWhile isspace [a]"
    by (intro dropWhile_append2) simp
  then show ?thesis using True by (simp add: rstrip_def del: dropWhile_append)
next
  case False
  then obtain x where "x \<in> set (rev l)" "\<not> isspace x" by auto
  then have "dropWhile isspace (rev l @ [a]) = dropWhile isspace (rev l) @ [a]"
    by (rule dropWhile_append1)
  with False show ?thesis by (simp add: rstrip_def)
qed

lemma lstrip_rstrip: "lstrip (rstrip l) = rstrip (lstrip l)"
proof (induction l)
  case Nil
  then show ?case by (simp add: lstrip_def rstrip_def)
next
  case (Cons a l)
  show ?case
  proof (cases "isspace a")
    case True
    show ?thesis
    proof (cases "\<forall>x\<in>set l. isspace x")
      case T: True
      have r: "rstrip (a # l) = []" using True T by (simp add: rstrip_Cons)
      have l: "lstrip (a # l) = []" using True T by (simp add: lstrip_def)
      have e: "lstrip [] = rstrip []" by (simp add: lstrip_def rstrip_def)
      show ?thesis unfolding r l by (rule e)
    next
      case False
      then have r: "rstrip (a # l) = a # rstrip l" by (auto simp: rstrip_Cons)
      have l1: "lstrip (a # rstrip l) = lstrip (rstrip l)" using True by (simp add: lstrip_def)
      have l2: "lstrip (a # l) = lstrip l" using True by (simp add: lstrip_def)
      show ?thesis unfolding r l1 l2 by (rule Cons.IH)
    qed
  next
    case False
    then have "lstrip (a # l) = a # l" by (simp add: lstrip_def)
    moreover have "lstrip (rstrip (a # l)) = rstrip (a # l)"
    proof (cases "\<forall>x\<in>set l. isspace x")
      case True
      then have "rstrip (a # l) = [a]" using False by (simp add: rstrip_Cons)
      then show ?thesis using False by (simp add: lstrip_def)
    next
      case F: False
      then have "rstrip (a # l) = a # rstrip l" by (auto simp: rstrip_Cons)
      then show ?thesis using False by (simp add: lstrip_def)
    qed
    ultimately show ?thesis by simp
  qed
qed

lemma rstrip_idem: "rstrip (rstrip l) = rstrip l"
  by (simp add: rstrip_def dropWhile_idem)

lemma lstrip_Nil_iff: "lstrip l = [] \<longleftrightarrow> (\<forall>x\<in>set l. isspace x)"
  by (simp add: lstrip_def dropWhile_eq_Nil_conv)

lemma rstrip_Nil_iff: "rstrip l = [] \<longleftrightarrow> (\<forall>x\<in>set l. isspace x)"
  by (simp add: rstrip_def dropWhile_eq_Nil_conv)

lemma strip_Nil_iff: "strip l = [] \<longleftrightarrow> (\<forall>x\<in>set l. isspace x)"
proof -
  have "strip l = [] \<longleftrightarrow> lstrip (rstrip l) = []" by (simp add: strip_def lstrip_rstrip)
  also have "\<dots> \<longleftrightarrow> (\<forall>x\<in>set (rstrip l). isspace x)" by (rule lstrip_Nil_iff)
  also have "\<dots> \<longleftrightarrow> rstrip (rstrip l) = []" by (simp add: rstrip_Nil_iff)
  also have "\<dots> \<longleftrightarrow> (\<forall>x\<in>set l. isspace x)" by (simp add: rstrip_idem rstrip_Nil_iff)
  finally show ?thesis .
qed

lemma isspace_nl: "isspace 10"
  by (simp add: isspace_def)

lemma split_nl_nonempty: "split_nl s \<noteq> []"
  by (induction s) (auto split: list.splits)

lemma split_nl_no_nl: "l \<in> set (split_nl s) \<Longrightarrow> 10 \<notin> set l"
proof (induction s arbitrary: l)
  case Nil
  then show ?case by simp
next
  case (Cons c cs)
  then show ?case
    by (cases "split_nl cs") (auto split: if_splits simp: split_nl_nonempty)
qed

lemma re_sub_blank_id:
  "(\<forall>a b. s = a @ 10 # b \<longrightarrow> 10 \<notin> set (takeWhile isspace b)) \<Longrightarrow> re_sub_blank s = s"
proof (induction s)
  case Nil
  then show ?case by simp
next
  case (Cons c cs)
  have tail: "\<forall>a b. cs = a @ 10 # b \<longrightarrow> 10 \<notin> set (takeWhile isspace b)"
  proof (intro allI impI)
    fix a b assume "cs = a @ 10 # b"
    then have "c # cs = (c # a) @ 10 # b" by simp
    with Cons.prems show "10 \<notin> set (takeWhile isspace b)" by blast
  qed
  have head: "c = 10 \<Longrightarrow> 10 \<notin> set (takeWhile isspace cs)"
  proof -
    assume "c = 10"
    then have "c # cs = [] @ 10 # cs" by simp
    with Cons.prems show ?thesis by blast
  qed
  from Cons.IH [OF tail] head show ?case by auto
qed

lemma plain_line_ok:
  assumes "10 \<notin> set l" and "l @ t = a @ 10 # b"
  shows "\<exists>a'. t = a' @ 10 # b"
  using assms
proof (induction l arbitrary: a)
  case Nil
  then show ?case by auto
next
  case (Cons x l)
  then show ?case by (cases a) auto
qed

lemma join_nl_ok:
  assumes "\<forall>l\<in>set ls. 10 \<notin> set l \<and> (\<exists>x\<in>set l. \<not> isspace x)"
  shows "\<forall>a b. join_nl ls = a @ 10 # b \<longrightarrow> 10 \<notin> set (takeWhile isspace b)"
  using assms
proof (induction ls rule: join_nl.induct)
  case 1
  then show ?case by simp
next
  case (2 l)
  show ?case
  proof (intro allI impI)
    fix a b assume "join_nl [l] = a @ 10 # b"
    then have "10 \<in> set l" by simp
    with 2 show "10 \<notin> set (takeWhile isspace b)" by simp
  qed
next
  case (3 l v va)
  have ih: "\<forall>a b. join_nl (v # va) = a @ 10 # b \<longrightarrow> 10 \<notin> set (takeWhile isspace b)"
    using 3 by simp
  show ?case
  proof (intro allI impI)
    fix a b assume e: "join_nl (l # v # va) = a @ 10 # b"
    then have e': "l @ 10 # join_nl (v # va) = a @ 10 # b" by simp
    have l: "10 \<notin> set l" using 3 by simp
    from plain_line_ok [OF l e'] obtain a' where a': "10 # join_nl (v # va) = a' @ 10 # b"
      by blast
    show "10 \<notin> set (takeWhile isspace b)"
    proof (cases a')
      case Nil
      with a' have b: "b = join_nl (v # va)" by simp
      obtain x where x: "x \<in> set v" "\<not> isspace x" using 3 by auto
      have v: "10 \<notin> set v" using 3 by simp
      have "join_nl (v # va) = v @ (if va = [] then [] else 10 # join_nl va)"
        by (cases va) auto
      then have "takeWhile isspace (join_nl (v # va)) = takeWhile isspace v"
        using x by (simp add: takeWhile_append1 del: takeWhile_append)
      then have "set (takeWhile isspace b) \<subseteq> set v"
        using b by (auto dest: set_takeWhileD)
      with v show ?thesis by blast
    next
      case (Cons y ys)
      with a' have "join_nl (v # va) = ys @ 10 # b" by simp
      with ih show ?thesis by blast
    qed
  qed
qed

lemma filtered_lines_props:
  assumes "l \<in> set (filtered_lines lower (split_nl s))"
  shows "10 \<notin> set l" and "\<exists>x\<in>set l. \<not> isspace x" and "\<not> should_skip lower l"
  using assms split_nl_no_nl [of l s]
  by (auto simp: filtered_lines_def strip_Nil_iff)

lemma clean_response_eq:
  "clean_response lower response =
     strip (join_nl (filtered_lines lower (split_nl (strip response))))"
proof -
  let ?ls = "filtered_lines lower (split_nl (strip response))"
  have "\<forall>l\<in>set ?ls. 10 \<notin> set l \<and> (\<exists>x\<in>set l. \<not> isspace x)"
    using filtered_lines_props by blast
  then have "re_sub_blank (join_nl ?ls) = join_nl ?ls"
    by (intro re_sub_blank_id join_nl_ok)
  then show ?thesis by (simp add: clean_response_def Let_def)
qed

text \<open>
  C4: the code does not do what the claim says about blank lines.  The comment above the
  substitution says that runs of blank lines are reduced to one, and that is what the
  substitution does to a text with two blank lines (second equation).  But the loop
  before it keeps a line only when it is not blank, so the substitution never finds a
  match (lemma \<open>clean_response_eq\<close>), and the text with two blank lines between \<open>a\<close>
  and \<open>b\<close> comes out with none (first equation).
\<close>

theorem clean_response_blank_lines:
  "clean_response lower_ascii (u ''a'' @ [10, 10, 10] @ u ''b'') = u ''a'' @ [10] @ u ''b'' \<and>
   re_sub_blank (u ''a'' @ [10, 10, 10] @ u ''b'') = u ''a'' @ [10, 10] @ u ''b''"
  by (simp add: clean_response_def filtered_lines_def should_skip_def lines_to_remove_def
      strip_def lstrip_def rstrip_def isspace_def lower_ascii_def u_def sublist_code)

subsection \<open>The status column\<close>








subsection \<open>The readers\<close>

lemma sirket_of_row_Some:
  assumes "sirket_of_row lower row = Inr (Some s)"
  shows "sirket_adi s \<noteq> [] \<and> mail s \<noteq> [] \<and> mail s \<notin> set talep_form \<and>
         \<not> (durum s \<noteq> [] \<and> sublist gonderildi (lower (durum s)))"
  using assms
  by (auto simp: sirket_of_row_def bind_def Let_def split: sum.splits if_splits)

lemma sirketler_of_rows_props:
  assumes "sirketler_of_rows lower rows = Inr sirketler" and "s \<in> set sirketler"
  shows "sirket_adi s \<noteq> [] \<and> mail s \<noteq> [] \<and> mail s \<notin> set talep_form \<and>
         \<not> (durum s \<noteq> [] \<and> sublist gonderildi (lower (durum s)))"
  using assms
proof (induction rows arbitrary: sirketler)
  case Nil
  then show ?case by simp
next
  case (Cons row rows)
  from Cons.prems(1) obtain found rest where
    f: "sirket_of_row lower row = Inr found" and
    r: "sirketler_of_rows lower rows = Inr rest" and
    e: "sirketler = (case found of None \<Rightarrow> [] | Some sirket \<Rightarrow> [sirket]) @ rest"
    by (auto split: sum.splits)
  show ?case
  proof (cases "s \<in> set rest")
    case True
    with Cons.IH [OF r] show ?thesis by simp
  next
    case False
    with Cons.prems(2) e have "found = Some s" by (cases found) auto
    with f sirket_of_row_Some show ?thesis by blast
  qed
qed

lemma drop_duplicates_props:
  "distinct (map key (drop_duplicates key seen rs)) \<and>
   set (map key (drop_duplicates key seen rs)) \<inter> set seen = {} \<and>
   set (drop_duplicates key seen rs) \<subseteq> set rs"
proof (induction rs arbitrary: seen)
  case Nil
  then show ?case by simp
next
  case (Cons r rs)
  show ?case
  proof (cases "key r \<in> set seen")
    case True
    with Cons.IH [of seen] show ?thesis by auto
  next
    case False
    with Cons.IH [of "key r # seen"] show ?thesis by auto
  qed
qed

lemma email_match_at: "email_match s \<Longrightarrow> 64 \<in> set s"
proof -
  assume "email_match s"
  then have "dropWhile local_char s \<noteq> []" "hd (dropWhile local_char s) = 64"
    by (simp_all add: email_match_def Let_def)
  then have "64 \<in> set (dropWhile local_char s)" by (metis list.set_sel(1))
  then show ?thesis by (rule set_dropWhileD)
qed

lemma clean_data_rows:
  assumes "clean_data df = Inr df'"
  shows "df_columns df' = df_columns df"
    and "distinct (map (\<lambda>row. cell_at (df_columns df) row col_mail) (df_rows df'))"
    and "\<forall>row\<in>set (df_rows df'). is_valid_email (cell_at (df_columns df) row col_mail)"
proof -
  let ?cols = "df_columns df"
  let ?rows4 = "filter (\<lambda>row. is_valid_email (cell_at ?cols row col_mail))
      (map (clean_row ?cols)
        (filter (\<lambda>row. cell_at ?cols row col_sirket_adi \<noteq> NA \<and> cell_at ?cols row col_mail \<noteq> NA)
          (filter (\<lambda>row. \<not> list_all (\<lambda>c. c = NA) row) (df_rows df))))"
  from assms have e: "df' = df\<lparr>df_rows := drop_duplicates (\<lambda>row. cell_at ?cols row col_mail) [] ?rows4\<rparr>"
    by (simp add: clean_data_def Let_def split: if_splits)
  note p = drop_duplicates_props [of "\<lambda>row. cell_at ?cols row col_mail" "[]" ?rows4]
  show "df_columns df' = df_columns df" by (simp add: e)
  show "distinct (map (\<lambda>row. cell_at (df_columns df) row col_mail) (df_rows df'))"
    using p by (simp add: e)
  have "set (df_rows df') \<subseteq> set ?rows4" using p by (simp add: e)
  then show "\<forall>row\<in>set (df_rows df'). is_valid_email (cell_at (df_columns df) row col_mail)"
    by auto
qed

lemmas row_eval = sirket_of_row_def get_strip_def bind_def dict_row_def fieldnames_def
  col_sirket_adi_def col_durum_def gonderildi_def talep_form_def strip_def lstrip_def
  rstrip_def isspace_def lower_ascii_def u_def sublist_code Let_def

lemmas cell_eval = clean_row_def clean_cell_def cell_at_def set_cell_def col_sirket_adi_def
  col_mail_def strip_def lstrip_def rstrip_def isspace_def u_def Let_def

lemmas mail_eval = is_valid_email_def email_match_def domain_match_def local_char_def
  domain_char_def is_alnum_def is_alpha_def u_def Let_def

lemma email_match_no_form: "email_match m \<Longrightarrow> m \<notin> set talep_form"
proof
  assume "email_match m" and "m \<in> set talep_form"
  from email_match_at [OF this(1)] this(2) show False
    by (auto simp: talep_form_def u_def)
qed

text \<open>
  C1, as stated, fails on both readers.  \<open>csv_dosyasini_oku\<close> does not look for
  duplicates: two companies with the address \<open>hr@x.co\<close> are both returned.
  \<open>_clean_data\<close> does not look at the status: a company whose column \<open>Durum\<close> says
  that the mail was sent stays in the table.
\<close>

theorem readers_counterexample:
  "csv_dosyasini_oku lower_ascii
     (Some [fieldnames,
            [u ''Acme'', [], [], [], u ''hr@x.co'', [], []],
            [u ''Bolt'', [], [], [], u ''hr@x.co'', [], []]]) =
   Some [\<lparr>sirket_adi = u ''Acme'', adres = [], numara = [], web_sitesi = [],
           mail = u ''hr@x.co'', durum = [], notlar = []\<rparr>,
         \<lparr>sirket_adi = u ''Bolt'', adres = [], numara = [], web_sitesi = [],
           mail = u ''hr@x.co'', durum = [], notlar = []\<rparr>] \<and>
   clean_data
     \<lparr>df_columns = [col_sirket_adi, col_mail, u ''Web Sitesi'', u ''Notlar'', u ''Durum''],
      df_rows = [[Val (u ''Acme''), Val (u ''hr@acme.co''), NA, NA,
                  Val (u ''Mail G'' @ 246 # u ''nderildi'')]]\<rparr> =
   Inr \<lparr>df_columns = [col_sirket_adi, col_mail, u ''Web Sitesi'', u ''Notlar'', u ''Durum''],
        df_rows = [[Val (u ''Acme''), Val (u ''hr@acme.co''), NA, NA,
                    Val (u ''Mail G'' @ 246 # u ''nderildi'')]]\<rparr>"
proof -
  let ?cols = "[col_sirket_adi, col_mail, u ''Web Sitesi'', u ''Notlar'', u ''Durum'']"
  let ?row = "[Val (u ''Acme''), Val (u ''hr@acme.co''), NA, NA,
               Val (u ''Mail G'' @ 246 # u ''nderildi'')]"
  have r1: "sirket_of_row lower_ascii
      (dict_row fieldnames [u ''Acme'', [], [], [], u ''hr@x.co'', [], []]) =
      Inr (Some \<lparr>sirket_adi = u ''Acme'', adres = [], numara = [], web_sitesi = [],
           mail = u ''hr@x.co'', durum = [], notlar = []\<rparr>)"
    by (simp add: row_eval)
  have r2: "sirket_of_row lower_ascii
      (dict_row fieldnames [u ''Bolt'', [], [], [], u ''hr@x.co'', [], []]) =
      Inr (Some \<lparr>sirket_adi = u ''Bolt'', adres = [], numara = [], web_sitesi = [],
           mail = u ''hr@x.co'', durum = [], notlar = []\<rparr>)"
    by (simp add: row_eval)
  have a: "csv_dosyasini_oku lower_ascii
     (Some [fieldnames,
            [u ''Acme'', [], [], [], u ''hr@x.co'', [], []],
            [u ''Bolt'', [], [], [], u ''hr@x.co'', [], []]]) =
   Some [\<lparr>sirket_adi = u ''Acme'', adres = [], numara = [], web_sitesi = [],
           mail = u ''hr@x.co'', durum = [], notlar = []\<rparr>,
         \<lparr>sirket_adi = u ''Bolt'', adres = [], numara = [], web_sitesi = [],
           mail = u ''hr@x.co'', durum = [], notlar = []\<rparr>]"
    by (simp add: csv_dosyasini_oku_def dict_reader_def r1 r2)
  have m: "col_sirket_adi \<in> set ?cols" "col_mail \<in> set ?cols" by simp_all
  have c: "clean_row ?cols ?row = ?row"
    by (simp add: cell_eval)
  have k: "cell_at ?cols ?row col_sirket_adi = Val (u ''Acme'')"
    "cell_at ?cols ?row col_mail = Val (u ''hr@acme.co'')"
    by (simp_all add: cell_at_def col_sirket_adi_def col_mail_def u_def)
  have v: "is_valid_email (Val (u ''hr@acme.co''))"
    by (simp add: mail_eval)
  have b: "clean_data \<lparr>df_columns = ?cols, df_rows = [?row]\<rparr> =
           Inr \<lparr>df_columns = ?cols, df_rows = [?row]\<rparr>"
    by (simp add: clean_data_def Let_def m c k v)
  from a b show ?thesis by (rule conjI)
qed

text \<open>
  C1, amended.  Every company that \<open>csv_dosyasini_oku\<close> returns has a name and an
  address that are not empty, an address that is neither \<open>TalepForm\<close> nor
  \<open>Talep Form\<close>, and no status that, lower-cased, contains the marker \<open>gonderildi\<close> (written
  with o with diaeresis);
  duplicate addresses are not removed.  Every row that \<open>_clean_data\<close> keeps has an address
  that matches the pattern of the module, so one that is neither empty nor one of the two
  request-form values, and no two kept rows have the same address; the status is not
  looked at.
\<close>

theorem readers_sendable:
  "(csv_dosyasini_oku lower file = Some sirketler \<longrightarrow>
      (\<forall>s\<in>set sirketler. sirket_adi s \<noteq> [] \<and> mail s \<noteq> [] \<and> mail s \<notin> set talep_form \<and>
          \<not> (durum s \<noteq> [] \<and> sublist gonderildi (lower (durum s))))) \<and>
   (clean_data df = Inr df' \<longrightarrow>
      (\<forall>row\<in>set (df_rows df').
          \<exists>m. cell_at (df_columns df') row col_mail = Val m \<and> m \<noteq> [] \<and>
              m \<notin> set talep_form \<and> email_match m) \<and>
      distinct (map (\<lambda>row. cell_at (df_columns df') row col_mail) (df_rows df')))"
proof (intro conjI impI)
  assume f: "csv_dosyasini_oku lower file = Some sirketler"
  then obtain file_rows where
    l: "sirketler_of_rows lower (dict_reader file_rows) = Inr sirketler"
    by (auto simp: csv_dosyasini_oku_def split: option.splits sum.splits)
  show "\<forall>s\<in>set sirketler. sirket_adi s \<noteq> [] \<and> mail s \<noteq> [] \<and> mail s \<notin> set talep_form \<and>
          \<not> (durum s \<noteq> [] \<and> sublist gonderildi (lower (durum s)))"
    using sirketler_of_rows_props [OF l] by blast
next
  assume c: "clean_data df = Inr df'"
  note p = clean_data_rows [OF c]
  show "\<forall>row\<in>set (df_rows df').
          \<exists>m. cell_at (df_columns df') row col_mail = Val m \<and> m \<noteq> [] \<and>
              m \<notin> set talep_form \<and> email_match m"
  proof
    fix row assume r: "row \<in> set (df_rows df')"
    from p(3) r have v: "is_valid_email (cell_at (df_columns df) row col_mail)" by blast
    then obtain m where m: "cell_at (df_columns df) row col_mail = Val m" "m \<noteq> []"
      "email_match m"
      by (auto simp: is_valid_email_def split: cell.splits)
    with email_match_no_form [OF m(3)]
    show "\<exists>m. cell_at (df_columns df') row col_mail = Val m \<and> m \<noteq> [] \<and>
              m \<notin> set talep_form \<and> email_match m"
      unfolding p(1) by blast
  qed
next
  assume c: "clean_data df = Inr df'"
  note p = clean_data_rows [OF c]
  show "distinct (map (\<lambda>row. cell_at (df_columns df') row col_mail) (df_rows df'))"
    unfolding p(1) by (rule p(2))
qed

theorem readers_sendable_witness:
  "csv_dosyasini_oku lower_ascii
     (Some [fieldnames,
            [u ''Acme'', [], [], [], u ''hr@acme.co'', [], []],
            [u ''Bolt'', [], [], [], u ''TalepForm'', [], []],
            [u ''Cast'', [], [], [], u ''hr@cast.co'', u ''Mail G'' @ 246 # u ''nderildi'', []]]) =
   Some [\<lparr>sirket_adi = u ''Acme'', adres = [], numara = [], web_sitesi = [],
           mail = u ''hr@acme.co'', durum = [], notlar = []\<rparr>] \<and>
   u ''hr@acme.co'' \<notin> set talep_form \<and>
   clean_data
     \<lparr>df_columns = [col_sirket_adi, col_mail, u ''Web Sitesi'', u ''Notlar''],
      df_rows = [[Val (u ''Acme''), Val (u '' hr@acme.co''), NA, NA],
                 [Val (u ''Bolt''), Val (u ''TalepForm''), NA, NA],
                 [Val (u ''Cast''), Val (u ''hr@acme.co''), NA, NA]]\<rparr> =
   Inr \<lparr>df_columns = [col_sirket_adi, col_mail, u ''Web Sitesi'', u ''Notlar''],
        df_rows = [[Val (u ''Acme''), Val (u ''hr@acme.co''), NA, NA]]\<rparr> \<and>
   distinct (map (\<lambda>row. cell_at [col_sirket_adi, col_mail, u ''Web Sitesi'', u ''Notlar''] row col_mail)
     [[Val (u ''Acme''), Val (u ''hr@acme.co''), NA, NA]])"
proof -
  let ?file = "Some [fieldnames,
            [u ''Acme'', [], [], [], u ''hr@acme.co'', [], []],
            [u ''Bolt'', [], [], [], u ''TalepForm'', [], []],
            [u ''Cast'', [], [], [], u ''hr@cast.co'', u ''Mail G'' @ 246 # u ''nderildi'', []]]"
  let ?s = "\<lparr>sirket_adi = u ''Acme'', adres = [], numara = [], web_sitesi = [],
           mail = u ''hr@acme.co'', durum = [], notlar = []\<rparr>"
  let ?df = "\<lparr>df_columns = [col_sirket_adi, col_mail, u ''Web Sitesi'', u ''Notlar''],
      df_rows = [[Val (u ''Acme''), Val (u '' hr@acme.co''), NA, NA],
                 [Val (u ''Bolt''), Val (u ''TalepForm''), NA, NA],
                 [Val (u ''Cast''), Val (u ''hr@acme.co''), NA, NA]]\<rparr>"
  let ?df' = "\<lparr>df_columns = [col_sirket_adi, col_mail, u ''Web Sitesi'', u ''Notlar''],
        df_rows = [[Val (u ''Acme''), Val (u ''hr@acme.co''), NA, NA]]\<rparr>"
  let ?cols = "[col_sirket_adi, col_mail, u ''Web Sitesi'', u ''Notlar'']"
  have r1: "sirket_of_row lower_ascii
      (dict_row fieldnames [u ''Acme'', [], [], [], u ''hr@acme.co'', [], []]) = Inr (Some ?s)"
    by (simp add: row_eval)
  have r2: "sirket_of_row lower_ascii
      (dict_row fieldnames [u ''Bolt'', [], [], [], u ''TalepForm'', [], []]) = Inr None"
    by (simp add: row_eval)
  have r3: "sirket_of_row lower_ascii
      (dict_row fieldnames [u ''Cast'', [], [], [], u ''hr@cast.co'',
         u ''Mail G'' @ 246 # u ''nderildi'', []]) = Inr None"
    by (simp add: row_eval)
  have a: "csv_dosyasini_oku lower_ascii ?file = Some [?s]"
    by (simp add: csv_dosyasini_oku_def dict_reader_def r1 r2 r3)
  have m: "col_sirket_adi \<in> set ?cols" "col_mail \<in> set ?cols" by simp_all
  have c: "clean_row ?cols [Val (u ''Acme''), Val (u '' hr@acme.co''), NA, NA] =
             [Val (u ''Acme''), Val (u ''hr@acme.co''), NA, NA]"
    "clean_row ?cols [Val (u ''Bolt''), Val (u ''TalepForm''), NA, NA] =
             [Val (u ''Bolt''), Val (u ''TalepForm''), NA, NA]"
    "clean_row ?cols [Val (u ''Cast''), Val (u ''hr@acme.co''), NA, NA] =
             [Val (u ''Cast''), Val (u ''hr@acme.co''), NA, NA]"
    by (simp_all add: cell_eval)
  have k: "\<And>x y. cell_at ?cols [x, y, NA, NA] col_sirket_adi = x"
    "\<And>x y. cell_at ?cols [x, y, NA, NA] col_mail = y"
    by (simp_all add: cell_at_def col_sirket_adi_def col_mail_def u_def)
  have v: "is_valid_email (Val (u ''hr@acme.co''))" "\<not> is_valid_email (Val (u ''TalepForm''))"
    by (simp_all add: mail_eval)
  have b: "clean_data ?df = Inr ?df'"
    by (simp add: clean_data_def Let_def m c k v)
  note t = readers_sendable [of lower_ascii ?file "[?s]" ?df ?df']
  from t a have "mail ?s \<notin> set talep_form" by simp
  then have c: "u ''hr@acme.co'' \<notin> set talep_form" by simp
  from t b have d: "distinct (map (\<lambda>row. cell_at (df_columns ?df') row col_mail) (df_rows ?df'))"
    by blast
  then have d': "distinct (map (\<lambda>row. cell_at [col_sirket_adi, col_mail, u ''Web Sitesi'', u ''Notlar''] row col_mail)
     [[Val (u ''Acme''), Val (u ''hr@acme.co''), NA, NA]])" by simp
  from a c b d' show ?thesis by blast
qed

end
